theory Spec2Isabelle
  imports Complex_Main
begin

section \<open>Data model of the front end\<close>

text \<open>
  The interfaces of \<^verbatim>\<open>src/frontend/src/types.ts\<close> as records. A TypeScript
  \<^verbatim>\<open>number\<close> is only stored and copied by the functions below, never computed with.
  Field names that would hide a HOL constant or another record's field carry the
  record's name as a prefix (\<^verbatim>\<open>id\<close>, \<^verbatim>\<open>name\<close>, \<^verbatim>\<open>x\<close>, \<^verbatim>\<open>y\<close>, \<^verbatim>\<open>type\<close>).
\<close>

type_synonym number = real

record Position =
  pos_x :: number
  pos_y :: number

record MCPTool =
  tool_id :: string
  tool_name :: string
  package_name :: string
  description :: string
  env_variables :: "string list"

record MCPAssociation =
  association_id :: string
  mcp_tool :: MCPTool
  env_values :: "string \<rightharpoonup> string"

datatype AgentType = Single | Orchestrator | Worker

record Agent =
  agent_id :: string
  agent_name :: string
  instruction :: string
  model_name :: string
  agent_type :: AgentType
  usecase_id :: string
  position_x :: number
  position_y :: number
  mcp_tools :: "MCPAssociation list option"

datatype NotificationType = NError | NSuccess | NInfo

record Notification =
  note_message :: string
  note_type :: NotificationType

section \<open>updateAgentPosition\<close>

text \<open>
  \<^verbatim>\<open>setAgents(prev => prev.map(agent => agent.agent_id === agentId
       ? { ...agent, position_x: position.x, position_y: position.y } : agent))\<close>
  The function below is the updater applied to the previous list.
\<close>

definition updateAgentPosition :: "string \<Rightarrow> Position \<Rightarrow> Agent list \<Rightarrow> Agent list" where
  "updateAgentPosition agentId position prev =
     map (\<lambda>agent. if agent_id agent = agentId
                   then agent\<lparr>position_x := pos_x position, position_y := pos_y position\<rparr>
                   else agent) prev"

section \<open>addMCPToAgent\<close>

text \<open>
  The form's \<^verbatim>\<open>envValues\<close> is a plain object: its own properties are a finite map
  from names to strings. A read \<^verbatim>\<open>envValues[k]\<close> of a name that is no own property
  goes to \<^verbatim>\<open>Object.prototype\<close>, whose properties are functions (and, for
  \<^verbatim>\<open>__proto__\<close>, the prototype object itself); any other name reads \<^verbatim>\<open>undefined\<close>.
\<close>

datatype js_prop = Undefined | StrVal string | Inherited

definition Object_prototype_keys :: "string list" where
  "Object_prototype_keys =
     [''constructor'', ''hasOwnProperty'', ''isPrototypeOf'', ''propertyIsEnumerable'',
      ''toLocaleString'', ''toString'', ''valueOf'', ''__defineGetter__'',
      ''__defineSetter__'', ''__lookupGetter__'', ''__lookupSetter__'', ''__proto__'']"

definition get_prop :: "(string \<rightharpoonup> string) \<Rightarrow> string \<Rightarrow> js_prop" where
  "get_prop obj k =
     (case obj k of
        Some v \<Rightarrow> StrVal v
      | None \<Rightarrow> if k \<in> set Object_prototype_keys then Inherited else Undefined)"

fun truthy :: "js_prop \<Rightarrow> bool" where
  "truthy Undefined = False"
| "truthy (StrVal v) = (v \<noteq> [])"
| "truthy Inherited = True"

record MCPAssociationFormData =
  selectedTool :: "MCPTool option"
  envValues :: "string \<rightharpoonup> string"

record Payload =
  mcp_tool_id :: string
  payload_env_values :: "string \<rightharpoonup> string"

text \<open>\<^verbatim>\<open>Array.prototype.join\<close> with a separator.\<close>

fun join :: "string \<Rightarrow> string list \<Rightarrow> string" where
  "join sep [] = []"
| "join sep [a] = a"
| "join sep (a # b # bs) = a @ sep @ join sep (b # bs)"

text \<open>
  \<^verbatim>\<open>Object.fromEntries(Object.entries(envValues).filter(([_, value]) =>
       value !== null && value !== undefined && value !== ''))\<close>:
  the own properties whose value is not the empty string.
\<close>

definition cleanedEnvValues :: "(string \<rightharpoonup> string) \<Rightarrow> (string \<rightharpoonup> string)" where
  "cleanedEnvValues obj =
     (\<lambda>k. case obj k of None \<Rightarrow> None | Some v \<Rightarrow> if v \<noteq> [] then Some v else None)"

definition missingEnvVars :: "MCPTool \<Rightarrow> (string \<rightharpoonup> string) \<Rightarrow> string list" where
  "missingEnvVars tool obj = filter (\<lambda>envVar. \<not> truthy (get_prop obj envVar)) (env_variables tool)"

text \<open>
  \<^verbatim>\<open>addMCPToAgent\<close> up to the point where the request leaves: \<open>Inl\<close> is the error
  notification of an early return (nothing is sent), \<open>Inr\<close> the call
  \<^verbatim>\<open>api.addMCPToAgent(selectedAgent.agent_id, payload)\<close>.
\<close>

definition addMCPToAgent ::
  "Agent option \<Rightarrow> MCPAssociationFormData \<Rightarrow> Notification + (string \<times> Payload)" where
  "addMCPToAgent selectedAgent mcpAssociationForm =
     (case (selectedAgent, selectedTool mcpAssociationForm) of
        (Some agent, Some tool) \<Rightarrow>
          (let missing = missingEnvVars tool (envValues mcpAssociationForm) in
           if length missing > 0
           then Inl \<lparr>note_message =
                       ''Missing required environment variables: '' @ join '', '' missing,
                     note_type = NError\<rparr>
           else Inr (agent_id agent,
                     \<lparr>mcp_tool_id = tool_id tool,
                      payload_env_values = cleanedEnvValues (envValues mcpAssociationForm)\<rparr>))
      | _ \<Rightarrow> Inl \<lparr>note_message = ''Please select an agent and a tool'', note_type = NError\<rparr>)"

section \<open>useWebSocket: the reconnecting log client\<close>

subsection \<open>Values, sockets, timers\<close>

text \<open>
  \<^verbatim>\<open>JSON.parse\<close> returns an arbitrary JSON value; the cast \<^verbatim>\<open>as LogEntry\<close> is a
  compile-time annotation and checks nothing when the code runs, so the list
  \<^verbatim>\<open>logs\<close> holds whatever was parsed. \<^verbatim>\<open>JSON.parse\<close> itself is a builtin: the
  model takes it as the parameter \<open>parse\<close>, \<open>None\<close> standing for the SyntaxError
  it throws.
\<close>

datatype json =
    JNull
  | JBool bool
  | JNumber int
  | JString string
  | JArray "json list"
  | JObject "(string \<times> json) list"

text \<open>What the interface \<^verbatim>\<open>LogEntry\<close> asks of a value.\<close>

fun get_field :: "(string \<times> json) list \<Rightarrow> string \<Rightarrow> json option" where
  "get_field [] k = None"
| "get_field ((k', v) # kvs) k = (case get_field kvs k of Some v' \<Rightarrow> Some v' | None \<Rightarrow> if k' = k then Some v else None)"

fun is_string :: "json option \<Rightarrow> bool" where
  "is_string (Some (JString s)) = True"
| "is_string _ = False"

fun isLogEntry :: "json \<Rightarrow> bool" where
  "isLogEntry (JObject kvs) =
     (is_string (get_field kvs ''timestamp'') \<and> is_string (get_field kvs ''message'') \<and>
      (get_field kvs ''level'' = Some (JString ''error'') \<or>
       get_field kvs ''level'' = Some (JString ''warning'') \<or>
       get_field kvs ''level'' = Some (JString ''info'')))"
| "isLogEntry _ = False"

datatype readyState = CONNECTING | OPEN | CLOSING | CLOSED

text \<open>
  A socket of the browser: its ready state, and whether the four handlers
  (\<^verbatim>\<open>onopen\<close>, \<^verbatim>\<open>onmessage\<close>, \<^verbatim>\<open>onclose\<close>, \<^verbatim>\<open>onerror\<close>) that \<^verbatim>\<open>connect\<close> assigns
  together and \<^verbatim>\<open>resetConnection\<close> removes together are attached.
\<close>

record WebSocket =
  readyState :: readyState
  handlers :: bool

text \<open>The four closures the hook passes to \<^verbatim>\<open>setTimeout\<close>.\<close>

datatype callback =
    InitCb              \<comment> \<open>the effect's initial connection, after 100 ms\<close>
  | ConnTimeoutCb nat   \<comment> \<open>the connection timeout of the socket it closes over\<close>
  | RetryCb             \<comment> \<open>the retry scheduled by \<^verbatim>\<open>ws.onclose\<close>\<close>
  | CatchRetryCb        \<comment> \<open>the retry scheduled by the \<^verbatim>\<open>catch\<close> branch of \<^verbatim>\<open>connect\<close>\<close>

text \<open>
  The hook's React state and refs, then the browser's side: the sockets ever
  constructed, the timers pending (handle \<open>\<mapsto>\<close> delay in ms and callback) and the
  next fresh socket and timer handle. Timer handles are positive, as in a
  browser, so the source's test \<^verbatim>\<open>if (ref.current)\<close> is \<open>ref \<noteq> None\<close>. The field
  \<open>initTimeout\<close> is the constant of that name of the effect's latest run, which its
  cleanup closes over.
\<close>

record hook =
  logs :: "json list"
  isConnected :: bool
  wsRef :: "nat option"
  reconnectTimeoutRef :: "nat option"
  connectionTimeoutRef :: "nat option"
  reconnectAttemptsRef :: nat
  mountedRef :: bool
  initTimeout :: "nat option"
  sockets :: "nat \<rightharpoonup> WebSocket"
  timers :: "nat \<rightharpoonup> (nat \<times> callback)"
  nextSocket :: nat
  nextTimer :: nat

definition MAX_RECONNECT_ATTEMPTS :: nat where "MAX_RECONNECT_ATTEMPTS = 5"
definition INITIAL_RECONNECT_DELAY :: nat where "INITIAL_RECONNECT_DELAY = 1000"
definition CONNECTION_TIMEOUT :: nat where "CONNECTION_TIMEOUT = 5000"

definition init :: hook where
  "init = \<lparr>logs = [], isConnected = False, wsRef = None, reconnectTimeoutRef = None,
           connectionTimeoutRef = None, reconnectAttemptsRef = 0, mountedRef = True,
           initTimeout = None, sockets = Map.empty, timers = Map.empty,
           nextSocket = 0, nextTimer = 1\<rparr>"

subsection \<open>Browser primitives\<close>

text \<open>\<^verbatim>\<open>setTimeout\<close> registers the callback under the fresh handle \<open>nextTimer s\<close>.\<close>

definition setTimeout :: "callback \<Rightarrow> nat \<Rightarrow> hook \<Rightarrow> hook" where
  "setTimeout cb delay s =
     s\<lparr>timers := (timers s)(nextTimer s \<mapsto> (delay, cb)), nextTimer := nextTimer s + 1\<rparr>"

definition clearTimeout :: "nat \<Rightarrow> hook \<Rightarrow> hook" where
  "clearTimeout t s = s\<lparr>timers := (timers s)(t := None)\<rparr>"

text \<open>\<^verbatim>\<open>ws.close()\<close>: a connecting or open socket starts closing; otherwise nothing.\<close>

definition ws_close :: "nat \<Rightarrow> hook \<Rightarrow> hook" where
  "ws_close w s =
     (case sockets s w of
        None \<Rightarrow> s
      | Some sk \<Rightarrow>
          if readyState sk = CONNECTING \<or> readyState sk = OPEN
          then s\<lparr>sockets := (sockets s)(w \<mapsto> sk\<lparr>readyState := CLOSING\<rparr>)\<rparr>
          else s)"

definition set_handlers :: "nat \<Rightarrow> bool \<Rightarrow> hook \<Rightarrow> hook" where
  "set_handlers w b s =
     (case sockets s w of
        None \<Rightarrow> s
      | Some sk \<Rightarrow> s\<lparr>sockets := (sockets s)(w \<mapsto> sk\<lparr>handlers := b\<rparr>)\<rparr>)"

text \<open>\<^verbatim>\<open>[...prev, log].slice(-n)\<close>: the last \<open>n\<close> elements, all of them when there are fewer.\<close>

definition slice_last :: "nat \<Rightarrow> 'a list \<Rightarrow> 'a list" where
  "slice_last n xs = drop (length xs - n) xs"

subsection \<open>The hook's functions\<close>

definition clearTimeouts :: "hook \<Rightarrow> hook" where
  "clearTimeouts s =
     (let s1 = (case reconnectTimeoutRef s of
                  Some t \<Rightarrow> (clearTimeout t s)\<lparr>reconnectTimeoutRef := None\<rparr>
                | None \<Rightarrow> s)
      in case connectionTimeoutRef s1 of
           Some t \<Rightarrow> (clearTimeout t s1)\<lparr>connectionTimeoutRef := None\<rparr>
         | None \<Rightarrow> s1)"

definition resetConnection :: "hook \<Rightarrow> hook" where
  "resetConnection s =
     (let s1 = clearTimeouts s in
      case wsRef s1 of
        None \<Rightarrow> s1
      | Some ws \<Rightarrow> ws_close ws (set_handlers ws False (s1\<lparr>wsRef := None\<rparr>)))"

text \<open>
  \<^verbatim>\<open>connect\<close>. The flag \<open>throws\<close> says whether \<^verbatim>\<open>new WebSocket(url)\<close> throws in this
  call (a URL the constructor rejects, or a context that forbids the socket);
  it is the only statement of the \<^verbatim>\<open>try\<close> block that can, and the \<^verbatim>\<open>catch\<close>
  branch is what runs then.
\<close>

definition connect :: "bool \<Rightarrow> hook \<Rightarrow> hook" where
  "connect throws s =
     (if \<not> mountedRef s then s
      else
        let s1 = resetConnection s in
        if reconnectAttemptsRef s1 \<ge> MAX_RECONNECT_ATTEMPTS then s1
        else if throws then
          (let s2 = s1\<lparr>isConnected := False\<rparr> in
           if reconnectTimeoutRef s2 = None
           then (setTimeout CatchRetryCb 3000 s2)\<lparr>reconnectTimeoutRef := Some (nextTimer s2)\<rparr>
           else s2)
        else
          (let ws = nextSocket s1;
               s2 = s1\<lparr>sockets := (sockets s1)(ws \<mapsto> \<lparr>readyState = CONNECTING, handlers = False\<rparr>),
                       nextSocket := ws + 1\<rparr>
           in if \<not> mountedRef s2 then ws_close ws s2
              else
                let s3 = s2\<lparr>wsRef := Some ws\<rparr>;
                    s4 = (setTimeout (ConnTimeoutCb ws) CONNECTION_TIMEOUT s3)
                           \<lparr>connectionTimeoutRef := Some (nextTimer s3)\<rparr>
                in set_handlers ws True s4))"

definition onopen :: "nat \<Rightarrow> hook \<Rightarrow> hook" where
  "onopen ws s =
     (if wsRef s = Some ws \<and> mountedRef s
      then (clearTimeouts s)\<lparr>isConnected := True, reconnectAttemptsRef := 0\<rparr>
      else s)"

definition onmessage :: "(string \<Rightarrow> json option) \<Rightarrow> nat \<Rightarrow> string \<Rightarrow> hook \<Rightarrow> hook" where
  "onmessage parse ws data s =
     (if wsRef s = Some ws \<and> mountedRef s
      then (case parse data of
              Some entry \<Rightarrow> s\<lparr>logs := slice_last 100 (logs s @ [entry])\<rparr>
            | None \<Rightarrow> s)
      else s)"

definition reconnect_delay :: "nat \<Rightarrow> nat" where
  "reconnect_delay attempts = min (INITIAL_RECONNECT_DELAY * 2 ^ attempts) 10000"

definition onclose :: "nat \<Rightarrow> hook \<Rightarrow> hook" where
  "onclose ws s =
     (if wsRef s = Some ws then
        let s1 = s\<lparr>isConnected := False, wsRef := None\<rparr>;
            s2 = (case connectionTimeoutRef s1 of
                    Some t \<Rightarrow> (clearTimeout t s1)\<lparr>connectionTimeoutRef := None\<rparr>
                  | None \<Rightarrow> s1)
        in if reconnectTimeoutRef s2 = None then
             let delay = reconnect_delay (reconnectAttemptsRef s2);
                 s3 = s2\<lparr>reconnectAttemptsRef := reconnectAttemptsRef s2 + 1\<rparr>
             in (setTimeout RetryCb delay s3)\<lparr>reconnectTimeoutRef := Some (nextTimer s3)\<rparr>
           else s2
      else s)"

definition onerror :: "nat \<Rightarrow> hook \<Rightarrow> hook" where
  "onerror ws s = (if wsRef s = Some ws then s\<lparr>isConnected := False\<rparr> else s)"

text \<open>What a timer's callback does when the timer fires.\<close>

fun run_callback :: "callback \<Rightarrow> bool \<Rightarrow> hook \<Rightarrow> hook" where
  "run_callback InitCb throws s = (if mountedRef s then connect throws s else s)"
| "run_callback (ConnTimeoutCb ws) throws s =
     (if wsRef s = Some ws \<and> map_option readyState (sockets s ws) = Some CONNECTING
      then ws_close ws s else s)"
| "run_callback RetryCb throws s =
     (let s1 = s\<lparr>reconnectTimeoutRef := None\<rparr> in
      if reconnectAttemptsRef s1 < MAX_RECONNECT_ATTEMPTS then connect throws s1 else s1)"
| "run_callback CatchRetryCb throws s = connect throws (s\<lparr>reconnectTimeoutRef := None\<rparr>)"

text \<open>The effect: its body and the cleanup it returns.\<close>

definition effect_setup :: "hook \<Rightarrow> hook" where
  "effect_setup s =
     (let s1 = s\<lparr>mountedRef := True, reconnectAttemptsRef := 0\<rparr>
      in (setTimeout InitCb 100 s1)\<lparr>initTimeout := Some (nextTimer s1)\<rparr>)"

definition effect_cleanup :: "hook \<Rightarrow> hook" where
  "effect_cleanup s =
     (let s1 = s\<lparr>mountedRef := False\<rparr>;
          s2 = (case initTimeout s1 of Some t \<Rightarrow> clearTimeout t s1 | None \<Rightarrow> s1)
      in resetConnection s2)"

subsection \<open>Events\<close>

text \<open>
  What can happen to the hook: React runs the effect or its cleanup, a pending
  timer fires, or the browser delivers an event of a socket. The flag of a timer
  event says whether the WebSocket constructor throws, should the callback reach it.
  The browser delivers \<^verbatim>\<open>open\<close> only to a connecting socket, \<^verbatim>\<open>message\<close> only to an
  open one, and nothing after \<^verbatim>\<open>close\<close>; an event reaches the hook only while the
  socket's handlers are attached. An event that cannot happen leaves the state as it
  is. Any list of events is a run: React alternates the effect and its cleanup, and
  the lists that do not are runs as well.
\<close>

datatype event =
    Setup
  | Cleanup
  | TimerFires nat bool
  | SockOpen nat
  | SockMessage nat string
  | SockError nat
  | SockClose nat

definition set_readyState :: "nat \<Rightarrow> readyState \<Rightarrow> hook \<Rightarrow> hook" where
  "set_readyState w r s =
     (case sockets s w of
        None \<Rightarrow> s
      | Some sk \<Rightarrow> s\<lparr>sockets := (sockets s)(w \<mapsto> sk\<lparr>readyState := r\<rparr>)\<rparr>)"

fun step :: "(string \<Rightarrow> json option) \<Rightarrow> event \<Rightarrow> hook \<Rightarrow> hook" where
  "step parse Setup s = effect_setup s"
| "step parse Cleanup s = effect_cleanup s"
| "step parse (TimerFires t throws) s =
     (case timers s t of
        None \<Rightarrow> s
      | Some (delay, cb) \<Rightarrow> run_callback cb throws (clearTimeout t s))"
| "step parse (SockOpen w) s =
     (case sockets s w of
        None \<Rightarrow> s
      | Some sk \<Rightarrow>
          if readyState sk = CONNECTING
          then (let s1 = set_readyState w OPEN s in if handlers sk then onopen w s1 else s1)
          else s)"
| "step parse (SockMessage w data) s =
     (case sockets s w of
        None \<Rightarrow> s
      | Some sk \<Rightarrow> if readyState sk = OPEN \<and> handlers sk then onmessage parse w data s else s)"
| "step parse (SockError w) s =
     (case sockets s w of
        None \<Rightarrow> s
      | Some sk \<Rightarrow> if readyState sk \<noteq> CLOSED \<and> handlers sk then onerror w s else s)"
| "step parse (SockClose w) s =
     (case sockets s w of
        None \<Rightarrow> s
      | Some sk \<Rightarrow>
          if readyState sk \<noteq> CLOSED
          then (let s1 = set_readyState w CLOSED s in if handlers sk then onclose w s1 else s1)
          else s)"

fun run :: "(string \<Rightarrow> json option) \<Rightarrow> event list \<Rightarrow> hook \<Rightarrow> hook" where
  "run parse [] s = s"
| "run parse (e # es) s = run parse es (step parse e s)"

subsection \<open>Observations of a state\<close>

text \<open>
  A socket is outstanding while it is connecting or open; it is listening while its
  handlers are attached and the browser may still deliver an event to it. A pending
  timer is a retry when its callback is one of the two that call \<^verbatim>\<open>connect\<close> again, and
  a connection timeout when its callback is the one \<^verbatim>\<open>connect\<close> arms for its socket.
\<close>

definition outstanding :: "(nat \<rightharpoonup> WebSocket) \<Rightarrow> nat \<Rightarrow> bool" where
  "outstanding ss w =
     (case ss w of
        None \<Rightarrow> False
      | Some sk \<Rightarrow> readyState sk = CONNECTING \<or> readyState sk = OPEN)"

definition listening :: "(nat \<rightharpoonup> WebSocket) \<Rightarrow> nat \<Rightarrow> bool" where
  "listening ss w =
     (case ss w of
        None \<Rightarrow> False
      | Some sk \<Rightarrow> handlers sk \<and> readyState sk \<noteq> CLOSED)"

fun is_retry :: "callback \<Rightarrow> bool" where
  "is_retry RetryCb = True"
| "is_retry CatchRetryCb = True"
| "is_retry _ = False"

fun is_conn_timeout :: "callback \<Rightarrow> bool" where
  "is_conn_timeout (ConnTimeoutCb ws) = True"
| "is_conn_timeout _ = False"

definition pending_retry :: "(nat \<rightharpoonup> (nat \<times> callback)) \<Rightarrow> nat \<Rightarrow> bool" where
  "pending_retry ts t =
     (case ts t of
        None \<Rightarrow> False
      | Some (delay, cb) \<Rightarrow> is_retry cb)"

definition pending_conn_timeout :: "(nat \<rightharpoonup> (nat \<times> callback)) \<Rightarrow> nat \<Rightarrow> bool" where
  "pending_conn_timeout ts t =
     (case ts t of
        None \<Rightarrow> False
      | Some (delay, cb) \<Rightarrow> is_conn_timeout cb)"

text \<open>
  The invariant of the hook: every outstanding socket is the one \<^verbatim>\<open>wsRef\<close> holds, the
  listening socket is exactly that one, every pending retry is the one
  \<^verbatim>\<open>reconnectTimeoutRef\<close> holds, every pending connection timeout is the one
  \<^verbatim>\<open>connectionTimeoutRef\<close> holds, and no retry is scheduled while a socket is current.
\<close>

definition Inv :: "hook \<Rightarrow> bool" where
  "Inv s \<longleftrightarrow>
     (\<forall>w. outstanding (sockets s) w \<longrightarrow> wsRef s = Some w) \<and>
     (\<forall>w. listening (sockets s) w \<longleftrightarrow> wsRef s = Some w) \<and>
     (\<forall>t. pending_retry (timers s) t \<longrightarrow> reconnectTimeoutRef s = Some t) \<and>
     (\<forall>t. pending_conn_timeout (timers s) t \<longrightarrow> connectionTimeoutRef s = Some t) \<and>
     (wsRef s \<noteq> None \<longrightarrow> reconnectTimeoutRef s = None)"

text \<open>A quiet state: no current socket, nothing outstanding or listening, no timer of
  the connection pending.\<close>

definition quiet :: "hook \<Rightarrow> bool" where
  "quiet s \<longleftrightarrow>
     wsRef s = None \<and> reconnectTimeoutRef s = None \<and> connectionTimeoutRef s = None \<and>
     (\<forall>w. \<not> outstanding (sockets s) w) \<and> (\<forall>w. \<not> listening (sockets s) w) \<and>
     (\<forall>t. \<not> pending_retry (timers s) t) \<and> (\<forall>t. \<not> pending_conn_timeout (timers s) t)"

text \<open>A silent state is quiet, and a call of \<^verbatim>\<open>connect\<close> in it returns before it
  constructs a socket: the hook is unmounted, or the attempts have reached the maximum.\<close>

definition silent :: "hook \<Rightarrow> bool" where
  "silent s \<longleftrightarrow> quiet s \<and> (\<not> mountedRef s \<or> MAX_RECONNECT_ATTEMPTS \<le> reconnectAttemptsRef s)"

text \<open>Handles are fresh: every socket and every pending timer has a handle below the
  next one to be given out.\<close>

definition Fresh :: "hook \<Rightarrow> bool" where
  "Fresh s \<longleftrightarrow> dom (sockets s) \<subseteq> {..<nextSocket s} \<and> dom (timers s) \<subseteq> {..<nextTimer s}"

text \<open>The connection timeout is armed: while the current socket is connecting, the timer
  \<^verbatim>\<open>connectionTimeoutRef\<close> holds is pending, with the delay \<^verbatim>\<open>CONNECTION_TIMEOUT\<close> and the
  callback of that socket.\<close>

definition Armed :: "hook \<Rightarrow> bool" where
  "Armed s \<longleftrightarrow>
     (\<forall>w. wsRef s = Some w \<and> map_option readyState (sockets s w) = Some CONNECTING \<longrightarrow>
        (case connectionTimeoutRef s of
           None \<Rightarrow> False
         | Some t \<Rightarrow> timers s t = Some (CONNECTION_TIMEOUT, ConnTimeoutCb w)))"

text \<open>
  A socket accepts a message when the browser can deliver one to it (it is open, with its
  handlers attached) and the guard of \<^verbatim>\<open>ws.onmessage\<close> passes. The log events received
  along a sequence of events are the parsed payloads of the messages accepted, in the
  order of their arrival.
\<close>

definition accepts :: "hook \<Rightarrow> nat \<Rightarrow> bool" where
  "accepts s w \<longleftrightarrow>
     (case sockets s w of None \<Rightarrow> False | Some sk \<Rightarrow> readyState sk = OPEN \<and> handlers sk) \<and>
     wsRef s = Some w \<and> mountedRef s"

fun received :: "(string \<Rightarrow> json option) \<Rightarrow> event list \<Rightarrow> hook \<Rightarrow> json list" where
  "received parse [] s = []"
| "received parse (e # es) s =
     (case e of
        SockMessage w d \<Rightarrow>
          (if accepts s w then (case parse d of Some v \<Rightarrow> [v] | None \<Rightarrow> []) else [])
      | _ \<Rightarrow> []) @ received parse es (step parse e s)"

subsection \<open>Example data\<close>

definition exampleAgent :: "string \<Rightarrow> Agent" where
  "exampleAgent aid =
     \<lparr>agent_id = aid, agent_name = ''helper'', instruction = ''answer'', model_name = ''gpt-4'',
      agent_type = Single, usecase_id = ''u'', position_x = 0, position_y = 0,
      mcp_tools = None\<rparr>"

definition exampleTool :: "string list \<Rightarrow> MCPTool" where
  "exampleTool vars =
     \<lparr>tool_id = ''t1'', tool_name = ''search'', package_name = ''pkg'', description = ''d'',
      env_variables = vars\<rparr>"

text \<open>
  \<^verbatim>\<open>JSON.parse\<close> on the three literal texts of JSON, for evaluating the hook on concrete
  messages; the examples below use it on these texts and on a text that is not JSON.
\<close>

definition parse_literals :: "string \<Rightarrow> json option" where
  "parse_literals d =
     (if d = ''null'' then Some JNull
      else if d = ''true'' then Some (JBool True)
      else if d = ''false'' then Some (JBool False)
      else None)"

text \<open>
  The state after the effect has run and its timer has fired (the first socket is
  connecting, its connection timeout armed), and the state after that socket has opened.
\<close>

definition connecting0 :: hook where
  "connecting0 = \<lparr>logs = [], isConnected = False, wsRef = Some 0, reconnectTimeoutRef = None,
           connectionTimeoutRef = Some 2, reconnectAttemptsRef = 0, mountedRef = True,
           initTimeout = Some 1,
           sockets = [0 \<mapsto> \<lparr>readyState = CONNECTING, handlers = True\<rparr>],
           timers = [2 \<mapsto> (5000, ConnTimeoutCb 0)],
           nextSocket = 1, nextTimer = 3\<rparr>"

definition connected0 :: hook where
  "connected0 = \<lparr>logs = [], isConnected = True, wsRef = Some 0, reconnectTimeoutRef = None,
           connectionTimeoutRef = None, reconnectAttemptsRef = 0, mountedRef = True,
           initTimeout = Some 1,
           sockets = [0 \<mapsto> \<lparr>readyState = OPEN, handlers = True\<rparr>],
           timers = Map.empty,
           nextSocket = 1, nextTimer = 3\<rparr>"

text \<open>The state after five connection attempts that each ended in a close event, and
  the fifth retry timer has fired.\<close>

definition gaveUp5 :: hook where
  "gaveUp5 = \<lparr>logs = [], isConnected = False, wsRef = None, reconnectTimeoutRef = None,
           connectionTimeoutRef = None, reconnectAttemptsRef = 5, mountedRef = True,
           initTimeout = Some 1,
           sockets = [0 \<mapsto> \<lparr>readyState = CLOSED, handlers = True\<rparr>,
                      1 \<mapsto> \<lparr>readyState = CLOSED, handlers = True\<rparr>,
                      2 \<mapsto> \<lparr>readyState = CLOSED, handlers = True\<rparr>,
                      3 \<mapsto> \<lparr>readyState = CLOSED, handlers = True\<rparr>,
                      4 \<mapsto> \<lparr>readyState = CLOSED, handlers = True\<rparr>],
           timers = Map.empty,
           nextSocket = 5, nextTimer = 12\<rparr>"

section \<open>Facts about the browser primitives\<close>

lemma outstanding_upd:
  "outstanding (ss(w \<mapsto> sk)) w' =
     (if w' = w then readyState sk = CONNECTING \<or> readyState sk = OPEN else outstanding ss w')"
  by (simp add: outstanding_def)

lemma listening_upd:
  "listening (ss(w \<mapsto> sk)) w' =
     (if w' = w then handlers sk \<and> readyState sk \<noteq> CLOSED else listening ss w')"
  by (simp add: listening_def)

lemma pending_retry_upd:
  "pending_retry (ts(t \<mapsto> (d, cb))) t' =
     (if t' = t then is_retry cb else pending_retry ts t')"
  by (simp add: pending_retry_def)

lemma pending_conn_timeout_upd:
  "pending_conn_timeout (ts(t \<mapsto> (d, cb))) t' =
     (if t' = t then is_conn_timeout cb else pending_conn_timeout ts t')"
  by (simp add: pending_conn_timeout_def)

lemma pending_del:
  "pending_retry (ts(t := None)) t' = (t' \<noteq> t \<and> pending_retry ts t')"
  "pending_conn_timeout (ts(t := None)) t' = (t' \<noteq> t \<and> pending_conn_timeout ts t')"
  by (simp_all add: pending_retry_def pending_conn_timeout_def)

lemma pending_empty:
  "\<not> pending_retry Map.empty t" "\<not> pending_conn_timeout Map.empty t"
  "\<not> outstanding Map.empty w" "\<not> listening Map.empty w"
  by (simp_all add: pending_retry_def pending_conn_timeout_def outstanding_def listening_def)

lemmas obs_simps = outstanding_upd listening_upd pending_retry_upd pending_conn_timeout_upd
  pending_del pending_empty

lemma setTimeout_fields:
  "logs (setTimeout cb d s) = logs s"
  "isConnected (setTimeout cb d s) = isConnected s"
  "wsRef (setTimeout cb d s) = wsRef s"
  "reconnectTimeoutRef (setTimeout cb d s) = reconnectTimeoutRef s"
  "connectionTimeoutRef (setTimeout cb d s) = connectionTimeoutRef s"
  "reconnectAttemptsRef (setTimeout cb d s) = reconnectAttemptsRef s"
  "mountedRef (setTimeout cb d s) = mountedRef s"
  "initTimeout (setTimeout cb d s) = initTimeout s"
  "sockets (setTimeout cb d s) = sockets s"
  "nextSocket (setTimeout cb d s) = nextSocket s"
  "timers (setTimeout cb d s) = (timers s)(nextTimer s \<mapsto> (d, cb))"
  "nextTimer (setTimeout cb d s) = nextTimer s + 1"
  by (simp_all add: setTimeout_def)

lemma clearTimeout_fields:
  "logs (clearTimeout t s) = logs s"
  "isConnected (clearTimeout t s) = isConnected s"
  "wsRef (clearTimeout t s) = wsRef s"
  "reconnectTimeoutRef (clearTimeout t s) = reconnectTimeoutRef s"
  "connectionTimeoutRef (clearTimeout t s) = connectionTimeoutRef s"
  "reconnectAttemptsRef (clearTimeout t s) = reconnectAttemptsRef s"
  "mountedRef (clearTimeout t s) = mountedRef s"
  "initTimeout (clearTimeout t s) = initTimeout s"
  "sockets (clearTimeout t s) = sockets s"
  "nextSocket (clearTimeout t s) = nextSocket s"
  "timers (clearTimeout t s) = (timers s)(t := None)"
  "nextTimer (clearTimeout t s) = nextTimer s"
  by (simp_all add: clearTimeout_def)

lemma ws_close_fields:
  "logs (ws_close w s) = logs s"
  "isConnected (ws_close w s) = isConnected s"
  "wsRef (ws_close w s) = wsRef s"
  "reconnectTimeoutRef (ws_close w s) = reconnectTimeoutRef s"
  "connectionTimeoutRef (ws_close w s) = connectionTimeoutRef s"
  "reconnectAttemptsRef (ws_close w s) = reconnectAttemptsRef s"
  "mountedRef (ws_close w s) = mountedRef s"
  "initTimeout (ws_close w s) = initTimeout s"
  "timers (ws_close w s) = timers s"
  "nextSocket (ws_close w s) = nextSocket s"
  "nextTimer (ws_close w s) = nextTimer s"
  by (simp_all add: ws_close_def split: option.splits)

lemma ws_close_sockets:
  "outstanding (sockets (ws_close w s)) w' = (w' \<noteq> w \<and> outstanding (sockets s) w')"
  "listening (sockets (ws_close w s)) w' = listening (sockets s) w'"
  by (auto simp: ws_close_def outstanding_def listening_def split: option.splits)

lemma set_handlers_fields:
  "logs (set_handlers w b s) = logs s"
  "isConnected (set_handlers w b s) = isConnected s"
  "wsRef (set_handlers w b s) = wsRef s"
  "reconnectTimeoutRef (set_handlers w b s) = reconnectTimeoutRef s"
  "connectionTimeoutRef (set_handlers w b s) = connectionTimeoutRef s"
  "reconnectAttemptsRef (set_handlers w b s) = reconnectAttemptsRef s"
  "mountedRef (set_handlers w b s) = mountedRef s"
  "initTimeout (set_handlers w b s) = initTimeout s"
  "timers (set_handlers w b s) = timers s"
  "nextSocket (set_handlers w b s) = nextSocket s"
  "nextTimer (set_handlers w b s) = nextTimer s"
  by (simp_all add: set_handlers_def split: option.splits)

lemma set_handlers_sockets:
  "outstanding (sockets (set_handlers w b s)) w' = outstanding (sockets s) w'"
  "listening (sockets (set_handlers w False s)) w' = (w' \<noteq> w \<and> listening (sockets s) w')"
  "w' \<noteq> w \<Longrightarrow> listening (sockets (set_handlers w b s)) w' = listening (sockets s) w'"
  by (auto simp: set_handlers_def outstanding_def listening_def split: option.splits)

lemma set_readyState_fields:
  "logs (set_readyState w r s) = logs s"
  "isConnected (set_readyState w r s) = isConnected s"
  "wsRef (set_readyState w r s) = wsRef s"
  "reconnectTimeoutRef (set_readyState w r s) = reconnectTimeoutRef s"
  "connectionTimeoutRef (set_readyState w r s) = connectionTimeoutRef s"
  "reconnectAttemptsRef (set_readyState w r s) = reconnectAttemptsRef s"
  "mountedRef (set_readyState w r s) = mountedRef s"
  "initTimeout (set_readyState w r s) = initTimeout s"
  "timers (set_readyState w r s) = timers s"
  "nextSocket (set_readyState w r s) = nextSocket s"
  "nextTimer (set_readyState w r s) = nextTimer s"
  by (simp_all add: set_readyState_def split: option.splits)

lemma set_readyState_sockets:
  "outstanding (sockets (set_readyState w CLOSED s)) w' = (w' \<noteq> w \<and> outstanding (sockets s) w')"
  "listening (sockets (set_readyState w CLOSED s)) w' = (w' \<noteq> w \<and> listening (sockets s) w')"
  "outstanding (sockets s) w \<Longrightarrow>
     outstanding (sockets (set_readyState w OPEN s)) w' = outstanding (sockets s) w'"
  "outstanding (sockets s) w \<Longrightarrow>
     listening (sockets (set_readyState w OPEN s)) w' = listening (sockets s) w'"
  by (auto simp: set_readyState_def outstanding_def listening_def split: option.splits)

lemmas prim_simps = setTimeout_fields clearTimeout_fields ws_close_fields ws_close_sockets
  set_handlers_fields set_handlers_sockets set_readyState_fields set_readyState_sockets

subsection \<open>clearTimeouts and resetConnection\<close>

lemma clearTimeouts_fields:
  "logs (clearTimeouts s) = logs s"
  "isConnected (clearTimeouts s) = isConnected s"
  "wsRef (clearTimeouts s) = wsRef s"
  "reconnectTimeoutRef (clearTimeouts s) = None"
  "connectionTimeoutRef (clearTimeouts s) = None"
  "reconnectAttemptsRef (clearTimeouts s) = reconnectAttemptsRef s"
  "mountedRef (clearTimeouts s) = mountedRef s"
  "initTimeout (clearTimeouts s) = initTimeout s"
  "sockets (clearTimeouts s) = sockets s"
  "nextSocket (clearTimeouts s) = nextSocket s"
  "nextTimer (clearTimeouts s) = nextTimer s"
  by (simp_all add: clearTimeouts_def clearTimeout_fields split: option.splits)

lemma clearTimeouts_timers:
  "timers (clearTimeouts s) t =
     (if reconnectTimeoutRef s = Some t \<or> connectionTimeoutRef s = Some t then None
      else timers s t)"
  by (simp add: clearTimeouts_def clearTimeout_fields split: option.splits)

lemma clearTimeouts_pending:
  "pending_retry (timers (clearTimeouts s)) t =
     (pending_retry (timers s) t \<and> reconnectTimeoutRef s \<noteq> Some t \<and> connectionTimeoutRef s \<noteq> Some t)"
  "pending_conn_timeout (timers (clearTimeouts s)) t =
     (pending_conn_timeout (timers s) t \<and> reconnectTimeoutRef s \<noteq> Some t \<and> connectionTimeoutRef s \<noteq> Some t)"
  by (auto simp: pending_retry_def pending_conn_timeout_def clearTimeouts_timers)

lemma resetConnection_fields:
  "logs (resetConnection s) = logs s"
  "isConnected (resetConnection s) = isConnected s"
  "wsRef (resetConnection s) = None"
  "reconnectTimeoutRef (resetConnection s) = None"
  "connectionTimeoutRef (resetConnection s) = None"
  "reconnectAttemptsRef (resetConnection s) = reconnectAttemptsRef s"
  "mountedRef (resetConnection s) = mountedRef s"
  "initTimeout (resetConnection s) = initTimeout s"
  "timers (resetConnection s) = timers (clearTimeouts s)"
  "nextSocket (resetConnection s) = nextSocket s"
  "nextTimer (resetConnection s) = nextTimer s"
  by (simp_all add: resetConnection_def Let_def clearTimeouts_fields ws_close_fields
      set_handlers_fields split: option.splits)

lemma resetConnection_sockets:
  "outstanding (sockets (resetConnection s)) w = (outstanding (sockets s) w \<and> wsRef s \<noteq> Some w)"
  "listening (sockets (resetConnection s)) w = (listening (sockets s) w \<and> wsRef s \<noteq> Some w)"
  by (auto simp: resetConnection_def Let_def clearTimeouts_fields ws_close_sockets
      set_handlers_sockets split: option.splits)

lemma Inv_init: "Inv init"
  by (simp add: Inv_def init_def obs_simps)

lemma quiet_Inv: "quiet s \<Longrightarrow> Inv s"
  by (simp add: Inv_def quiet_def)

lemma quiet_resetConnection: "Inv s \<Longrightarrow> quiet (resetConnection s)"
  by (auto simp: Inv_def quiet_def resetConnection_fields resetConnection_sockets
      clearTimeouts_pending)

section \<open>The invariant holds in every reachable state\<close>

lemma connect_unmounted: "\<not> mountedRef s \<Longrightarrow> connect throws s = s"
  by (simp add: connect_def)

lemma Inv_connect:
  assumes "Inv s"
  shows "Inv (connect throws s)"
proof (cases "mountedRef s")
  case False
  with assms show ?thesis by (simp add: connect_def)
next
  case True
  have "quiet (resetConnection s)"
    using assms by (rule quiet_resetConnection)
  with True show ?thesis
    unfolding connect_def Let_def
    by (simp add: Inv_def quiet_def setTimeout_fields ws_close_fields ws_close_sockets
        set_handlers_def obs_simps)
qed

lemma Inv_onopen: "Inv s \<Longrightarrow> outstanding (sockets s) w \<Longrightarrow> Inv (onopen w (set_readyState w OPEN s))"
  by (auto simp: Inv_def onopen_def clearTimeouts_fields clearTimeouts_pending
      set_readyState_fields set_readyState_sockets)

lemma Inv_set_readyState_OPEN:
  "Inv s \<Longrightarrow> outstanding (sockets s) w \<Longrightarrow> Inv (set_readyState w OPEN s)"
  by (auto simp: Inv_def set_readyState_fields set_readyState_sockets)

lemma Inv_set_readyState_CLOSED:
  "Inv s \<Longrightarrow> \<not> listening (sockets s) w \<Longrightarrow> Inv (set_readyState w CLOSED s)"
  by (auto simp: Inv_def set_readyState_fields set_readyState_sockets)

lemma Inv_onmessage: "Inv s \<Longrightarrow> Inv (onmessage parse w d s)"
  by (auto simp: Inv_def onmessage_def split: option.splits)

lemma Inv_onerror: "Inv s \<Longrightarrow> Inv (onerror w s)"
  by (auto simp: Inv_def onerror_def)

lemma Inv_onclose:
  "Inv s \<Longrightarrow> Inv (onclose w (set_readyState w CLOSED s))"
  unfolding onclose_def Let_def
  by (auto simp: Inv_def set_readyState_fields set_readyState_sockets setTimeout_fields
      clearTimeout_fields obs_simps split: option.splits)

lemma Inv_ws_close: "Inv s \<Longrightarrow> Inv (ws_close w s)"
  by (simp add: Inv_def ws_close_fields ws_close_sockets)

lemma Inv_clearTimeout: "Inv s \<Longrightarrow> Inv (clearTimeout t s)"
  by (simp add: Inv_def clearTimeout_fields obs_simps)

lemma Inv_timer_fires:
  assumes "Inv s" and "timers s t = Some (d, cb)"
  shows "Inv (run_callback cb throws (clearTimeout t s))"
proof (cases cb)
  case InitCb
  with assms show ?thesis by (simp add: Inv_connect Inv_clearTimeout)
next
  case (ConnTimeoutCb w)
  with assms show ?thesis by (simp add: Inv_ws_close Inv_clearTimeout)
next
  case RetryCb
  with assms(2) have r: "pending_retry (timers s) t"
    by (simp add: pending_retry_def)
  with assms(1) have "reconnectTimeoutRef s = Some t"
    by (simp add: Inv_def)
  with assms(1) have "Inv ((clearTimeout t s)\<lparr>reconnectTimeoutRef := None\<rparr>)"
    by (auto simp: Inv_def clearTimeout_fields obs_simps)
  then show ?thesis using RetryCb by (simp add: Let_def Inv_connect)
next
  case CatchRetryCb
  with assms(2) have r: "pending_retry (timers s) t"
    by (simp add: pending_retry_def)
  with assms(1) have "reconnectTimeoutRef s = Some t"
    by (simp add: Inv_def)
  with assms(1) have "Inv ((clearTimeout t s)\<lparr>reconnectTimeoutRef := None\<rparr>)"
    by (auto simp: Inv_def clearTimeout_fields obs_simps)
  then show ?thesis using CatchRetryCb by (simp add: Inv_connect)
qed

lemma Inv_effect_setup: "Inv s \<Longrightarrow> Inv (effect_setup s)"
  by (simp add: Inv_def effect_setup_def Let_def setTimeout_fields obs_simps)

lemma quiet_effect_cleanup: "Inv s \<Longrightarrow> quiet (effect_cleanup s)"
  unfolding effect_cleanup_def Let_def
  by (rule quiet_resetConnection)
     (simp add: Inv_def clearTimeout_fields obs_simps split: option.splits)

lemma Inv_step: "Inv s \<Longrightarrow> Inv (step parse e s)"
proof (cases e)
  case Setup
  then show "Inv s \<Longrightarrow> ?thesis" by (simp add: Inv_effect_setup)
next
  case Cleanup
  then show "Inv s \<Longrightarrow> ?thesis" by (simp add: quiet_effect_cleanup quiet_Inv)
next
  case (TimerFires t throws)
  then show "Inv s \<Longrightarrow> ?thesis" by (auto simp: Inv_timer_fires split: option.splits)
next
  case (SockOpen w)
  then show "Inv s \<Longrightarrow> ?thesis"
    by (auto simp: Let_def Inv_onopen Inv_set_readyState_OPEN outstanding_def split: option.splits)
next
  case (SockMessage w d)
  then show "Inv s \<Longrightarrow> ?thesis" by (simp add: Inv_onmessage split: option.splits)
next
  case (SockError w)
  then show "Inv s \<Longrightarrow> ?thesis" by (simp add: Inv_onerror split: option.splits)
next
  case (SockClose w)
  then show "Inv s \<Longrightarrow> ?thesis"
    by (auto simp: Let_def Inv_onclose Inv_set_readyState_CLOSED listening_def
        split: option.splits)
qed

lemma Inv_run: "Inv s \<Longrightarrow> Inv (run parse es s)"
  by (induction es arbitrary: s) (simp_all add: Inv_step)

lemma Inv_reachable: "Inv (run parse es init)"
  by (simp add: Inv_run Inv_init)

section \<open>updateAgentPosition changes two fields of the matching agents\<close>

text \<open>
  Claim C10. \<^verbatim>\<open>updateAgentPosition(agentId, position)\<close> keeps the list's length and
  order; an agent whose \<^verbatim>\<open>agent_id\<close> is \<^verbatim>\<open>agentId\<close> keeps every field but
  \<^verbatim>\<open>position_x\<close> and \<^verbatim>\<open>position_y\<close>, which become \<^verbatim>\<open>position.x\<close> and
  \<^verbatim>\<open>position.y\<close>; every other agent is unchanged; and when no agent has that id the
  list is unchanged.
\<close>

theorem updateAgentPosition_frame:
  "length (updateAgentPosition agentId position prev) = length prev \<and>
   (\<forall>i < length prev.
      (agent_id (prev ! i) = agentId \<longrightarrow>
         updateAgentPosition agentId position prev ! i =
           (prev ! i)\<lparr>position_x := pos_x position, position_y := pos_y position\<rparr>) \<and>
      (agent_id (prev ! i) \<noteq> agentId \<longrightarrow>
         updateAgentPosition agentId position prev ! i = prev ! i)) \<and>
   ((\<forall>a \<in> set prev. agent_id a \<noteq> agentId) \<longrightarrow>
      updateAgentPosition agentId position prev = prev)"
  by (auto simp: updateAgentPosition_def map_idI)

theorem updateAgentPosition_frame_witness:
  "updateAgentPosition ''a2'' \<lparr>pos_x = 5, pos_y = 7\<rparr> [exampleAgent ''a1'', exampleAgent ''a2'']
     = [exampleAgent ''a1'', (exampleAgent ''a2'')\<lparr>position_x := 5, position_y := 7\<rparr>] \<and>
   updateAgentPosition ''a3'' \<lparr>pos_x = 5, pos_y = 7\<rparr> [exampleAgent ''a1'', exampleAgent ''a2'']
     = [exampleAgent ''a1'', exampleAgent ''a2'']"
  using updateAgentPosition_frame [of "''a2''" "\<lparr>pos_x = 5, pos_y = 7\<rparr>"
      "[exampleAgent ''a1'', exampleAgent ''a2'']"]
    updateAgentPosition_frame [of "''a3''" "\<lparr>pos_x = 5, pos_y = 7\<rparr>"
      "[exampleAgent ''a1'', exampleAgent ''a2'']"]
  by (simp add: updateAgentPosition_def exampleAgent_def)

section \<open>addMCPToAgent and the names every object inherits\<close>

text \<open>
  When no declared name is a property of \<^verbatim>\<open>Object.prototype\<close>, the missing variables
  are exactly the declared names with no value or the empty value, the request is
  refused with an error notification when there is one, and sent with the non-empty
  values otherwise.
\<close>

lemma missingEnvVars_own:
  assumes "set (env_variables tool) \<inter> set Object_prototype_keys = {}"
  shows "missingEnvVars tool obj =
           filter (\<lambda>k. obj k = None \<or> obj k = Some []) (env_variables tool)"
  unfolding missingEnvVars_def
proof (rule filter_cong [OF refl])
  fix k assume "k \<in> set (env_variables tool)"
  with assms have "k \<notin> set Object_prototype_keys" by blast
  then show "(\<not> truthy (get_prop obj k)) = (obj k = None \<or> obj k = Some [])"
    by (cases "obj k") (simp_all add: get_prop_def)
qed

lemma addMCPToAgent_validates:
  assumes "set (env_variables tool) \<inter> set Object_prototype_keys = {}"
    and "selectedTool form = Some tool"
  shows "(\<exists>k \<in> set (env_variables tool). envValues form k = None \<or> envValues form k = Some []) \<Longrightarrow>
           \<exists>n. addMCPToAgent (Some agent) form = Inl n \<and> note_type n = NError"
    and "(\<forall>k \<in> set (env_variables tool). \<exists>v. envValues form k = Some v \<and> v \<noteq> []) \<Longrightarrow>
           addMCPToAgent (Some agent) form =
             Inr (agent_id agent,
                  \<lparr>mcp_tool_id = tool_id tool,
                   payload_env_values = cleanedEnvValues (envValues form)\<rparr>)"
proof -
  note m = missingEnvVars_own [OF assms(1), of "envValues form"]
  {
    assume "\<exists>k \<in> set (env_variables tool). envValues form k = None \<or> envValues form k = Some []"
    then have "missingEnvVars tool (envValues form) \<noteq> []"
      unfolding m by (auto simp: filter_empty_conv)
    then show "\<exists>n. addMCPToAgent (Some agent) form = Inl n \<and> note_type n = NError"
      using assms(2) by (simp add: addMCPToAgent_def Let_def)
  }
  {
    assume "\<forall>k \<in> set (env_variables tool). \<exists>v. envValues form k = Some v \<and> v \<noteq> []"
    then have "missingEnvVars tool (envValues form) = []"
      unfolding m by (auto simp: filter_empty_conv)
    then show "addMCPToAgent (Some agent) form =
             Inr (agent_id agent,
                  \<lparr>mcp_tool_id = tool_id tool,
                   payload_env_values = cleanedEnvValues (envValues form)\<rparr>)"
      using assms(2) by (simp add: addMCPToAgent_def Let_def)
  }
qed

text \<open>
  Claim C8 asks that the request is refused whenever a declared variable has no value.
  For a tool that declares the variable \<^verbatim>\<open>toString\<close> and a form with no values at all,
  the read \<^verbatim>\<open>envValues['toString']\<close> finds the inherited function, the validation
  passes, and the request is sent with an empty value map.
\<close>

theorem addMCPToAgent_inherited_name:
  "addMCPToAgent (Some (exampleAgent ''a1''))
     \<lparr>selectedTool = Some (exampleTool [''toString'']), envValues = Map.empty\<rparr>
   = Inr (''a1'', \<lparr>mcp_tool_id = ''t1'', payload_env_values = Map.empty\<rparr>)"
  by (simp add: addMCPToAgent_def missingEnvVars_def get_prop_def Object_prototype_keys_def
      cleanedEnvValues_def exampleAgent_def exampleTool_def)

section \<open>Evaluating the hook on concrete events\<close>

lemmas eval_defs = init_def effect_setup_def effect_cleanup_def setTimeout_def clearTimeout_def
  ws_close_def set_handlers_def set_readyState_def clearTimeouts_def resetConnection_def
  connect_def onopen_def onmessage_def onclose_def onerror_def reconnect_delay_def
  MAX_RECONNECT_ATTEMPTS_def INITIAL_RECONNECT_DELAY_def CONNECTION_TIMEOUT_def Let_def
  slice_last_def

lemma run_connecting0: "run parse [Setup, TimerFires 1 False] init = connecting0"
  by (simp add: eval_defs connecting0_def del: One_nat_def)

lemma run_connected0: "run parse [Setup, TimerFires 1 False, SockOpen 0] init = connected0"
  by (simp add: eval_defs connected0_def del: One_nat_def)

section \<open>The log buffer\<close>

lemma slice_last_append: "slice_last n (slice_last n xs @ ys) = slice_last n (xs @ ys)"
  by (cases "length xs \<le> n") (auto simp: slice_last_def add.commute)

lemma slice_last_short: "length xs \<le> n \<Longrightarrow> slice_last n xs = xs"
  by (simp add: slice_last_def)

lemma length_slice_last: "length (slice_last n xs) \<le> n"
  by (simp add: slice_last_def)

lemma connect_logs: "logs (connect throws s) = logs s"
  by (simp add: connect_def Let_def resetConnection_fields setTimeout_fields ws_close_fields
      set_handlers_fields)

lemma run_callback_logs: "logs (run_callback cb throws s) = logs s"
  by (cases cb) (simp_all add: connect_logs ws_close_fields Let_def)

lemma onopen_logs: "logs (onopen w s) = logs s"
  by (simp add: onopen_def clearTimeouts_fields)

lemma onclose_logs: "logs (onclose w s) = logs s"
  by (simp add: onclose_def Let_def setTimeout_fields clearTimeout_fields split: option.splits)

lemma onerror_logs: "logs (onerror w s) = logs s"
  by (simp add: onerror_def)

lemma effect_logs:
  "logs (effect_setup s) = logs s" "logs (effect_cleanup s) = logs s"
  by (simp_all add: effect_setup_def effect_cleanup_def Let_def setTimeout_fields
      resetConnection_fields clearTimeout_fields split: option.splits)

lemma logs_step:
  "logs (step parse e s) = logs s \<and> received parse [e] s = [] \<or>
   logs (step parse e s) = slice_last 100 (logs s @ received parse [e] s)"
proof (cases e)
  case (SockMessage w d)
  then show ?thesis
    by (auto simp: onmessage_def accepts_def split: option.splits)
qed (simp_all add: effect_logs run_callback_logs clearTimeout_fields onopen_logs onclose_logs
      onerror_logs set_readyState_fields Let_def split: option.splits prod.splits)

lemma logs_step_bounded:
  assumes "length (logs s) \<le> 100"
  shows "logs (step parse e s) = slice_last 100 (logs s @ received parse [e] s)"
  using logs_step [of parse e s] assms by (auto simp: slice_last_short)

lemma logs_run:
  "length (logs s) \<le> 100 \<Longrightarrow>
     logs (run parse es s) = slice_last 100 (logs s @ received parse es s)"
proof (induction es arbitrary: s)
  case Nil
  then show ?case by (simp add: slice_last_short)
next
  case (Cons e es)
  let ?s' = "step parse e s"
  have st: "logs ?s' = slice_last 100 (logs s @ received parse [e] s)"
    using Cons.prems by (rule logs_step_bounded)
  then have "length (logs ?s') \<le> 100"
    by (simp add: length_slice_last)
  then have "logs (run parse es ?s') = slice_last 100 (logs ?s' @ received parse es ?s')"
    by (rule Cons.IH)
  also have "\<dots> = slice_last 100 ((logs s @ received parse [e] s) @ received parse es ?s')"
    unfolding st by (rule slice_last_append)
  finally show ?case by simp
qed

lemma received_append:
  "received parse (es @ es') s = received parse es s @ received parse es' (run parse es s)"
  by (induction es arbitrary: s) simp_all

lemma step_message:
  "step parse (SockMessage w d) s =
     s\<lparr>logs := (if accepts s w
                 then (case parse d of Some v \<Rightarrow> slice_last 100 (logs s @ [v]) | None \<Rightarrow> logs s)
                 else logs s)\<rparr>"
  by (auto simp: onmessage_def accepts_def split: option.splits)

lemma accepts_logs: "accepts (s\<lparr>logs := l\<rparr>) w = accepts s w"
  by (simp add: accepts_def)

lemma run_messages:
  "run parse (map (SockMessage w) ds) s = s\<lparr>logs := logs (run parse (map (SockMessage w) ds) s)\<rparr>"
proof (induction ds arbitrary: s)
  case Nil
  show ?case by simp
next
  case (Cons d ds)
  obtain l where st: "step parse (SockMessage w d) s = s\<lparr>logs := l\<rparr>"
    using step_message by blast
  let ?X = "run parse (map (SockMessage w) ds) (s\<lparr>logs := l\<rparr>)"
  have unf: "run parse (map (SockMessage w) (d # ds)) s = ?X"
    by (simp only: list.map run.simps st)
  have "?X = s\<lparr>logs := l\<rparr>\<lparr>logs := logs ?X\<rparr>"
    by (rule Cons.IH)
  then have "?X = s\<lparr>logs := logs ?X\<rparr>"
    by simp
  then show ?case
    unfolding unf .
qed

lemma received_messages:
  "accepts s w \<Longrightarrow> received parse (map (SockMessage w) ds) s = List.map_filter parse ds"
proof (induction ds arbitrary: s)
  case Nil
  show ?case by (simp add: map_filter_simps)
next
  case (Cons d ds)
  have "accepts (step parse (SockMessage w d) s) w"
    using Cons.prems by (simp only: step_message accepts_logs)
  then have "received parse (map (SockMessage w) ds) (step parse (SockMessage w d) s)
               = List.map_filter parse ds"
    by (rule Cons.IH)
  then show ?case using Cons.prems
    by (simp add: map_filter_simps split: option.splits)
qed

lemma logs_reachable_bounded: "length (logs (run parse es init)) \<le> 100"
proof -
  have "logs (run parse es init) = slice_last 100 (logs init @ received parse es init)"
    by (rule logs_run) (simp add: init_def)
  then show ?thesis by (simp add: length_slice_last)
qed

text \<open>
  Claim C7. After any sequence of events of a freshly mounted hook, the retained list
  \<^verbatim>\<open>logs\<close> is the last (at most) 100 of the log events received, in the order of their
  arrival; it never holds more than 100; and after 150 received events it is those
  events without the first 50.
\<close>

theorem log_buffer_last_100:
  "logs (run parse es init) = slice_last 100 (received parse es init) \<and>
   length (logs (run parse es init)) \<le> 100 \<and>
   (length (received parse es init) = 150 \<longrightarrow>
      logs (run parse es init) = drop 50 (received parse es init))"
proof -
  have "logs (run parse es init) = slice_last 100 (logs init @ received parse es init)"
    by (rule logs_run) (simp add: init_def)
  then have eq: "logs (run parse es init) = slice_last 100 (received parse es init)"
    by (simp add: init_def)
  then show ?thesis
    by (simp add: length_slice_last) (simp add: slice_last_def)
qed

theorem log_buffer_last_100_witness:
  "length (received parse_literals
      ([Setup, TimerFires 1 False, SockOpen 0] @
       map (SockMessage 0) (replicate 75 ''true'' @ replicate 75 ''false'')) init) = 150 \<and>
   logs (run parse_literals
      ([Setup, TimerFires 1 False, SockOpen 0] @
       map (SockMessage 0) (replicate 75 ''true'' @ replicate 75 ''false'')) init)
     = replicate 25 (JBool True) @ replicate 75 (JBool False)"
proof -
  let ?ds = "replicate 75 ''true'' @ replicate 75 ''false''"
  let ?es = "[Setup, TimerFires 1 False, SockOpen 0] @ map (SockMessage 0) ?ds"
  have acc: "accepts connected0 0"
    by (simp add: accepts_def connected0_def)
  have pre: "received parse_literals [Setup, TimerFires 1 False, SockOpen 0] init = []"
    by simp
  have mf: "List.map_filter parse_literals ?ds
              = replicate 75 (JBool True) @ replicate 75 (JBool False)"
    by (simp add: List.map_filter_def parse_literals_def filter_replicate o_def)
  have "received parse_literals ?es init
          = received parse_literals [Setup, TimerFires 1 False, SockOpen 0] init @
            received parse_literals (map (SockMessage 0) ?ds)
              (run parse_literals [Setup, TimerFires 1 False, SockOpen 0] init)"
    by (rule received_append)
  also have "\<dots> = received parse_literals (map (SockMessage 0) ?ds) connected0"
    by (simp only: pre run_connected0 append_Nil)
  also have "\<dots> = List.map_filter parse_literals ?ds"
    using acc by (rule received_messages)
  finally have rec: "received parse_literals ?es init
               = replicate 75 (JBool True) @ replicate 75 (JBool False)"
    by (simp only: mf)
  have len: "length (received parse_literals ?es init) = 150"
    unfolding rec by simp
  have run_eq: "logs (run parse_literals ?es init) = drop 50 (received parse_literals ?es init)"
    using log_buffer_last_100 [of parse_literals ?es] len by blast
  have d50: "drop 50 (replicate 75 (JBool True) @ replicate 75 (JBool False))
          = replicate 25 (JBool True) @ replicate 75 (JBool False)"
    by simp
  have "logs (run parse_literals ?es init)
          = replicate 25 (JBool True) @ replicate 75 (JBool False)"
    by (simp only: run_eq rec d50)
  with len show ?thesis
    by (rule conjI)
qed

text \<open>
  Claim C9, as amended. A message whose payload \<^verbatim>\<open>JSON.parse\<close> rejects leaves the whole
  state as it is: the retained logs, the connection state, the retry counter, the
  timers and the sockets (so the transport is not closed).
\<close>

theorem unparseable_message_dropped:
  "parse d = None \<Longrightarrow> step parse (SockMessage w d) s = s"
  by (simp add: onmessage_def split: option.splits)

theorem unparseable_message_dropped_witness:
  "parse_literals ''{oops'' = None \<and>
   step parse_literals (SockMessage 0 ''{oops'')
       (run parse_literals [Setup, TimerFires 1 False, SockOpen 0] init)
     = run parse_literals [Setup, TimerFires 1 False, SockOpen 0] init"
proof -
  have "parse_literals ''{oops'' = None"
    by (simp add: parse_literals_def)
  then show ?thesis
    using unparseable_message_dropped [of parse_literals "''{oops''" 0 connected0]
    unfolding run_connected0 by simp
qed

text \<open>
  The claim as stated speaks of every payload that is not valid JSON for a
  \<^verbatim>\<open>LogEntry\<close>. The text \<^verbatim>\<open>null\<close> is valid JSON and no \<^verbatim>\<open>LogEntry\<close>; the handler
  appends what it parses to.
\<close>

theorem non_log_entry_appended:
  "parse_literals ''null'' = Some JNull \<and> \<not> isLogEntry JNull \<and>
   logs (run parse_literals [Setup, TimerFires 1 False, SockOpen 0] init) = [] \<and>
   logs (run parse_literals [Setup, TimerFires 1 False, SockOpen 0, SockMessage 0 ''null''] init)
     = [JNull]"
  by (simp add: eval_defs parse_literals_def del: One_nat_def)

section \<open>A confirmed connection\<close>

lemma current_socket_listening:
  assumes "Inv s" "wsRef s = Some w" "sockets s w = Some sk"
  shows "handlers sk" "readyState sk \<noteq> CLOSED"
proof -
  from assms(1,2) have "listening (sockets s) w"
    by (simp add: Inv_def)
  with assms(3) show "handlers sk" "readyState sk \<noteq> CLOSED"
    by (simp_all add: listening_def)
qed

lemma step_open_current:
  assumes "Inv s" "wsRef s = Some w" "mountedRef s" "sockets s w = Some sk"
    "readyState sk = CONNECTING"
  shows "step parse (SockOpen w) s =
           (clearTimeouts (set_readyState w OPEN s))\<lparr>isConnected := True, reconnectAttemptsRef := 0\<rparr>"
  using assms current_socket_listening(1) [OF assms(1,2,4)]
  by (simp add: Let_def onopen_def set_readyState_fields)

text \<open>
  Claim C6. In a reachable state whose current socket is connecting, with the hook
  mounted, the socket's open event sets \<^verbatim>\<open>isConnected\<close>, resets the retry counter to
  zero and clears the retry timer and the connection timeout. The socket stays the
  current one and is open. Any messages that arrive next on it are appended in their
  order of arrival (the unparseable ones dropped, the list cut to its last 100), and
  they change nothing of the state but \<^verbatim>\<open>logs\<close>.
\<close>

theorem open_then_messages:
  assumes "s = run parse es init" "wsRef s = Some w" "mountedRef s" "sockets s w = Some sk"
    "readyState sk = CONNECTING"
  shows "let s1 = step parse (SockOpen w) s in
           isConnected s1 \<and> reconnectAttemptsRef s1 = 0 \<and>
           reconnectTimeoutRef s1 = None \<and> connectionTimeoutRef s1 = None \<and>
           (\<forall>t. \<not> pending_retry (timers s1) t \<and> \<not> pending_conn_timeout (timers s1) t) \<and>
           wsRef s1 = Some w \<and> map_option readyState (sockets s1 w) = Some OPEN \<and>
           (\<forall>ds. let s2 = run parse (map (SockMessage w) ds) s1 in
                   logs s2 = slice_last 100 (logs s @ List.map_filter parse ds) \<and>
                   s2 = s1\<lparr>logs := logs s2\<rparr>)"
proof -
  have inv: "Inv s"
    unfolding assms(1) by (rule Inv_reachable)
  define s1 where "s1 = step parse (SockOpen w) s"
  have s1: "s1 = (clearTimeouts (set_readyState w OPEN s))\<lparr>isConnected := True, reconnectAttemptsRef := 0\<rparr>"
    unfolding s1_def using inv assms(2-5) by (rule step_open_current)
  have flags: "isConnected s1" "reconnectAttemptsRef s1 = 0" "reconnectTimeoutRef s1 = None"
    "connectionTimeoutRef s1 = None" "wsRef s1 = Some w" "mountedRef s1" "logs s1 = logs s"
    using assms(2,3) by (simp_all add: s1 clearTimeouts_fields set_readyState_fields)
  have sock: "sockets s1 w = Some (sk\<lparr>readyState := OPEN\<rparr>)"
    using assms(4) by (simp add: s1 clearTimeouts_fields set_readyState_def)
  have hs: "handlers sk"
    using inv assms(2,4) by (rule current_socket_listening(1))
  have tm: "\<not> pending_retry (timers s1) t \<and> \<not> pending_conn_timeout (timers s1) t" for t
    using inv by (auto simp: s1 Inv_def clearTimeouts_pending set_readyState_fields)
  have acc: "accepts s1 w"
    using flags hs by (simp add: accepts_def sock)
  have len: "length (logs s1) \<le> 100"
    unfolding flags(7) assms(1) by (rule logs_reachable_bounded)
  have msgs: "logs (run parse (map (SockMessage w) ds) s1)
                = slice_last 100 (logs s @ List.map_filter parse ds)" for ds
    using logs_run [OF len, of parse "map (SockMessage w) ds"]
    by (simp only: received_messages [OF acc] flags(7))
  have frame: "run parse (map (SockMessage w) ds) s1
                = s1\<lparr>logs := logs (run parse (map (SockMessage w) ds) s1)\<rparr>" for ds
    by (rule run_messages)
  show ?thesis
    unfolding s1_def [symmetric] Let_def
    using flags(1-5) tm sock msgs frame by simp
qed

theorem open_then_messages_witness:
  "(let s1 = step parse_literals (SockOpen 0) (run parse_literals [Setup, TimerFires 1 False] init)
    in isConnected s1 \<and> reconnectAttemptsRef s1 = 0 \<and> wsRef s1 = Some 0 \<and>
       logs (run parse_literals (map (SockMessage 0) [''true'', ''{oops'', ''null'']) s1)
         = [JBool True, JNull])"
proof -
  have hyps: "wsRef connecting0 = Some 0" "mountedRef connecting0"
    "sockets connecting0 0 = Some \<lparr>readyState = CONNECTING, handlers = True\<rparr>"
    "readyState \<lparr>readyState = CONNECTING, handlers = True\<rparr> = CONNECTING"
    by (simp_all add: connecting0_def)
  have mf: "List.map_filter parse_literals [''true'', ''{oops'', ''null''] = [JBool True, JNull]"
    by (simp add: List.map_filter_def parse_literals_def)
  have l0: "logs connecting0 = []"
    by (simp add: connecting0_def)
  note t = open_then_messages [OF run_connecting0 [symmetric] hyps, of parse_literals]
  show ?thesis
    using t unfolding Let_def run_connecting0
    by (simp only: mf l0 append_Nil) (simp add: slice_last_def)
qed

section \<open>Handles are fresh in every reachable state\<close>

lemma dom_sockets:
  "dom (sockets (ws_close w s)) = dom (sockets s)"
  "dom (sockets (set_handlers w b s)) = dom (sockets s)"
  "dom (sockets (set_readyState w r s)) = dom (sockets s)"
  by (auto simp: ws_close_def set_handlers_def set_readyState_def split: option.splits)

lemma dom_clearTimeouts: "dom (timers (clearTimeouts s)) \<subseteq> dom (timers s)"
  by (auto simp: clearTimeouts_timers dom_def)

lemma dom_resetConnection:
  "dom (sockets (resetConnection s)) = dom (sockets s)"
  "dom (timers (resetConnection s)) \<subseteq> dom (timers s)"
  by (simp_all add: resetConnection_def Let_def dom_sockets clearTimeouts_fields
      ws_close_fields set_handlers_fields dom_clearTimeouts split: option.splits)

lemma Fresh_init: "Fresh init"
  by (simp add: Fresh_def init_def)

lemma Fresh_clearTimeout: "Fresh s \<Longrightarrow> Fresh (clearTimeout t s)"
  by (auto simp: Fresh_def clearTimeout_fields)

lemma Fresh_sockets_only:
  "Fresh s \<Longrightarrow> Fresh (ws_close w s)"
  "Fresh s \<Longrightarrow> Fresh (set_handlers w b s)"
  "Fresh s \<Longrightarrow> Fresh (set_readyState w r s)"
  by (simp_all add: Fresh_def dom_sockets ws_close_fields set_handlers_fields
      set_readyState_fields)

lemma Fresh_clearTimeouts: "Fresh s \<Longrightarrow> Fresh (clearTimeouts s)"
  unfolding Fresh_def clearTimeouts_fields
  using dom_clearTimeouts [of s] by blast

lemma Fresh_resetConnection: "Fresh s \<Longrightarrow> Fresh (resetConnection s)"
  unfolding Fresh_def resetConnection_fields(10,11)
  using dom_resetConnection [of s] by blast

lemma Fresh_connect:
  assumes "Fresh s"
  shows "Fresh (connect throws s)"
proof (cases "mountedRef s")
  case False
  with assms show ?thesis by (simp add: connect_def)
next
  case True
  have "Fresh (resetConnection s)"
    using assms by (rule Fresh_resetConnection)
  with True show ?thesis
    unfolding connect_def Let_def
    by (auto simp: Fresh_def setTimeout_fields dom_sockets set_handlers_fields
        resetConnection_fields less_Suc_eq)
qed

lemma Fresh_onopen: "Fresh s \<Longrightarrow> Fresh (onopen w s)"
  using Fresh_clearTimeouts [of s] by (simp add: onopen_def Fresh_def)

lemma Fresh_onmessage: "Fresh s \<Longrightarrow> Fresh (onmessage parse w d s)"
  by (simp add: onmessage_def Fresh_def split: option.splits)

lemma Fresh_onerror: "Fresh s \<Longrightarrow> Fresh (onerror w s)"
  by (simp add: onerror_def Fresh_def)

lemma Fresh_onclose: "Fresh s \<Longrightarrow> Fresh (onclose w s)"
  unfolding onclose_def Let_def
  by (auto simp: Fresh_def setTimeout_fields clearTimeout_fields less_Suc_eq
      split: option.splits)

lemma Fresh_run_callback: "Fresh s \<Longrightarrow> Fresh (run_callback cb throws s)"
proof (cases cb)
  case RetryCb
  assume "Fresh s"
  then have "Fresh (s\<lparr>reconnectTimeoutRef := None\<rparr>)"
    by (simp add: Fresh_def)
  then show ?thesis
    using RetryCb by (simp add: Let_def Fresh_connect)
next
  case CatchRetryCb
  assume "Fresh s"
  then have "Fresh (s\<lparr>reconnectTimeoutRef := None\<rparr>)"
    by (simp add: Fresh_def)
  then show ?thesis
    using CatchRetryCb by (simp add: Fresh_connect)
qed (simp_all add: Fresh_connect Fresh_sockets_only)

lemma Fresh_effect_setup: "Fresh s \<Longrightarrow> Fresh (effect_setup s)"
  by (auto simp: effect_setup_def Let_def Fresh_def setTimeout_fields less_Suc_eq)

lemma Fresh_effect_cleanup: "Fresh s \<Longrightarrow> Fresh (effect_cleanup s)"
  unfolding effect_cleanup_def Let_def
  by (rule Fresh_resetConnection) (auto simp: Fresh_def clearTimeout_fields split: option.splits)

lemma Fresh_step: "Fresh s \<Longrightarrow> Fresh (step parse e s)"
  by (cases e)
    (simp_all add: Fresh_effect_setup Fresh_effect_cleanup Fresh_run_callback Fresh_clearTimeout
      Fresh_onopen Fresh_onmessage Fresh_onerror Fresh_onclose Fresh_sockets_only Let_def
      split: option.splits prod.splits)

lemma Fresh_run: "Fresh s \<Longrightarrow> Fresh (run parse es s)"
  by (induction es arbitrary: s) (simp_all add: Fresh_step)

lemma Fresh_reachable: "Fresh (run parse es init)"
  by (simp add: Fresh_run Fresh_init)

section \<open>The connection timeout\<close>

lemma onclose_schedules:
  assumes "wsRef s = Some w" "reconnectTimeoutRef s = None"
  shows "\<not> isConnected (onclose w s)"
    and "wsRef (onclose w s) = None"
    and "connectionTimeoutRef (onclose w s) = None"
    and "reconnectAttemptsRef (onclose w s) = reconnectAttemptsRef s + 1"
    and "reconnectTimeoutRef (onclose w s) = Some (nextTimer s)"
    and "nextTimer (onclose w s) = nextTimer s + 1"
    and "timers (onclose w s) (nextTimer s) = Some (reconnect_delay (reconnectAttemptsRef s), RetryCb)"
    and "t \<noteq> nextTimer s \<Longrightarrow>
           timers (onclose w s) t = (if connectionTimeoutRef s = Some t then None else timers s t)"
    and "sockets (onclose w s) = sockets s"
    and "nextSocket (onclose w s) = nextSocket s"
    and "mountedRef (onclose w s) = mountedRef s"
  using assms
  by (simp_all add: onclose_def Let_def setTimeout_fields clearTimeout_fields split: option.splits)

lemma connect_new_socket:
  assumes "mountedRef s" "reconnectAttemptsRef s < MAX_RECONNECT_ATTEMPTS"
  shows "wsRef (connect False s) = Some (nextSocket s)"
    and "sockets (connect False s) (nextSocket s) = Some \<lparr>readyState = CONNECTING, handlers = True\<rparr>"
    and "timers (connect False s) (nextTimer s) = Some (CONNECTION_TIMEOUT, ConnTimeoutCb (nextSocket s))"
    and "connectionTimeoutRef (connect False s) = Some (nextTimer s)"
    and "reconnectTimeoutRef (connect False s) = None"
    and "reconnectAttemptsRef (connect False s) = reconnectAttemptsRef s"
    and "nextSocket (connect False s) = nextSocket s + 1"
    and "nextTimer (connect False s) = nextTimer s + 1"
    and "isConnected (connect False s) = isConnected s"
    and "mountedRef (connect False s)"
  using assms
  by (simp_all add: connect_def Let_def resetConnection_fields setTimeout_fields
      set_handlers_def)

lemma timeout_fires_connecting:
  assumes "timers s t = Some (d, ConnTimeoutCb w)" "wsRef s = Some w" "sockets s w = Some sk"
    "readyState sk = CONNECTING"
  shows "step parse (TimerFires t b) s = ws_close w (clearTimeout t s)"
  using assms by (simp add: clearTimeout_fields)

text \<open>The connection timeout is armed in every reachable state.\<close>

lemma Armed_no_current: "wsRef s = None \<Longrightarrow> Armed s"
  by (simp add: Armed_def)

lemma Armed_init: "Armed init"
  by (simp add: Armed_no_current init_def)

lemma Armed_connect: "Armed s \<Longrightarrow> Armed (connect throws s)"
proof (cases "mountedRef s")
  case False
  then show "Armed s \<Longrightarrow> ?thesis" by (simp add: connect_def)
next
  case True
  then show ?thesis
    unfolding connect_def Let_def
    by (simp add: Armed_def resetConnection_fields setTimeout_fields ws_close_fields
        set_handlers_def)
qed

lemma Armed_onopen: "Armed s \<Longrightarrow> Armed (onopen w (set_readyState w OPEN s))"
  by (auto simp: Armed_def onopen_def clearTimeouts_fields set_readyState_fields
      set_readyState_def split: option.splits)

lemma Armed_other_socket:
  assumes "Armed s" "wsRef s \<noteq> Some w'"
  shows "Armed (set_readyState w' r s)"
  using assms
  by (auto simp: Armed_def set_readyState_fields set_readyState_def split: option.splits)

lemma Armed_not_connecting: "r \<noteq> CONNECTING \<Longrightarrow> wsRef s = Some w \<Longrightarrow> Armed (set_readyState w r s)"
  by (auto simp: Armed_def set_readyState_fields set_readyState_def split: option.splits)

lemma Armed_set_readyState: "Armed s \<Longrightarrow> r \<noteq> CONNECTING \<Longrightarrow> Armed (set_readyState w r s)"
  by (cases "wsRef s = Some w") (simp_all add: Armed_not_connecting Armed_other_socket)

lemma Armed_onmessage: "Armed s \<Longrightarrow> Armed (onmessage parse w d s)"
  by (auto simp: Armed_def onmessage_def split: option.splits)

lemma Armed_onerror: "Armed s \<Longrightarrow> Armed (onerror w s)"
  by (auto simp: Armed_def onerror_def split: option.splits)

lemma onclose_wsRef: "wsRef s = Some w \<Longrightarrow> wsRef (onclose w s) = None"
  by (simp add: onclose_def Let_def setTimeout_fields clearTimeout_fields split: option.splits)

lemma onclose_other: "wsRef s \<noteq> Some w \<Longrightarrow> onclose w s = s"
  by (simp add: onclose_def)

lemma Armed_onclose: "Armed s \<Longrightarrow> Armed (onclose w s)"
  by (cases "wsRef s = Some w") (simp_all add: Armed_no_current onclose_wsRef onclose_other)

lemma Armed_ws_close: "Armed s \<Longrightarrow> Armed (ws_close w s)"
  by (auto simp: Armed_def ws_close_fields ws_close_def split: option.splits)

lemma Armed_timer_fires:
  assumes "Armed s" "timers s t = Some (d, cb)"
  shows "Armed (run_callback cb throws (clearTimeout t s))"
proof (cases cb)
  case InitCb
  have "Armed (clearTimeout t s)"
    using assms InitCb by (auto simp: Armed_def clearTimeout_fields split: option.splits)
  then show ?thesis
    using InitCb by (simp add: Armed_connect)
next
  case (ConnTimeoutCb w)
  show ?thesis
  proof (cases "wsRef s = Some w \<and> map_option readyState (sockets s w) = Some CONNECTING")
    case True
    then have "run_callback cb throws (clearTimeout t s) = ws_close w (clearTimeout t s)"
      using ConnTimeoutCb by (simp add: clearTimeout_fields)
    moreover have "Armed (ws_close w (clearTimeout t s))"
      using True
      by (auto simp: Armed_def ws_close_fields clearTimeout_fields ws_close_def
          split: option.splits)
    ultimately show ?thesis by simp
  next
    case False
    then have "run_callback cb throws (clearTimeout t s) = clearTimeout t s"
      using ConnTimeoutCb by (auto simp: clearTimeout_fields)
    moreover have "Armed (clearTimeout t s)"
      using assms ConnTimeoutCb False
      by (auto simp: Armed_def clearTimeout_fields split: option.splits)
    ultimately show ?thesis by simp
  qed
next
  case RetryCb
  have "Armed ((clearTimeout t s)\<lparr>reconnectTimeoutRef := None\<rparr>)"
    using assms RetryCb by (auto simp: Armed_def clearTimeout_fields split: option.splits)
  then show ?thesis
    using RetryCb by (simp add: Let_def Armed_connect)
next
  case CatchRetryCb
  have "Armed ((clearTimeout t s)\<lparr>reconnectTimeoutRef := None\<rparr>)"
    using assms CatchRetryCb by (auto simp: Armed_def clearTimeout_fields split: option.splits)
  then show ?thesis
    using CatchRetryCb by (simp add: Armed_connect)
qed

lemma Armed_effect_setup:
  assumes "Armed s" "Fresh s"
  shows "Armed (effect_setup s)"
proof -
  have "nextTimer s \<notin> dom (timers s)"
    using assms(2) by (auto simp: Fresh_def)
  then have "timers s (nextTimer s) = None"
    by blast
  then show ?thesis
    using assms(1)
    by (auto simp: Armed_def effect_setup_def Let_def setTimeout_fields split: option.splits)
qed

lemma Armed_effect_cleanup: "Armed (effect_cleanup s)"
  by (rule Armed_no_current) (simp add: effect_cleanup_def Let_def resetConnection_fields)

lemma Armed_step:
  assumes "Armed s" "Fresh s"
  shows "Armed (step parse e s)"
proof (cases e)
  case Setup
  then show ?thesis using assms by (simp add: Armed_effect_setup)
next
  case Cleanup
  then show ?thesis by (simp add: Armed_effect_cleanup)
next
  case (TimerFires t throws)
  then show ?thesis
    using assms(1) by (auto simp: Armed_timer_fires split: option.splits)
next
  case (SockOpen w)
  then show ?thesis
    using assms(1) by (simp add: Let_def Armed_onopen Armed_set_readyState split: option.splits)
next
  case (SockMessage w d)
  then show ?thesis
    using assms(1) by (simp add: Armed_onmessage split: option.splits)
next
  case (SockError w)
  then show ?thesis
    using assms(1) by (simp add: Armed_onerror split: option.splits)
next
  case (SockClose w)
  then show ?thesis
    using assms(1)
    by (simp add: Let_def Armed_onclose Armed_set_readyState split: option.splits)
qed

lemma Armed_run: "Armed s \<Longrightarrow> Fresh s \<Longrightarrow> Armed (run parse es s)"
  by (induction es arbitrary: s) (simp_all add: Armed_step Fresh_step)

lemma Armed_reachable: "Armed (run parse es init)"
  by (simp add: Armed_run Armed_init Fresh_init)

text \<open>
  Claim C5. In a reachable state, a call of \<^verbatim>\<open>connect\<close> that constructs a socket (the hook
  is mounted, fewer than five attempts are counted, the constructor returns) arms a timer
  of 5000 ms for that socket, and in every reachable state whose current socket is
  connecting that timer is pending. When a connection timeout fires while its socket is still
  the current one and still connecting, the socket is closed (it stops being outstanding
  and starts closing); the close event that follows takes the failure path of
  \<^verbatim>\<open>ws.onclose\<close>: the hook is disconnected, the attempt is counted and one retry is
  scheduled with the backoff delay.
\<close>

theorem connection_attempt_times_out:
  assumes "s = run parse es init"
  shows "(mountedRef s \<and> reconnectAttemptsRef s < MAX_RECONNECT_ATTEMPTS \<longrightarrow>
            (let s1 = connect False s in
               wsRef s1 = Some (nextSocket s) \<and>
               sockets s1 (nextSocket s) = Some \<lparr>readyState = CONNECTING, handlers = True\<rparr> \<and>
               timers s1 (nextTimer s) = Some (5000, ConnTimeoutCb (nextSocket s)) \<and>
               connectionTimeoutRef s1 = Some (nextTimer s))) \<and>
         (timers s t = Some (d, ConnTimeoutCb w) \<and> wsRef s = Some w \<and>
          map_option readyState (sockets s w) = Some CONNECTING \<longrightarrow>
            (let s2 = step parse (TimerFires t b) s; s3 = step parse (SockClose w) s2 in
               map_option readyState (sockets s2 w) = Some CLOSING \<and> wsRef s2 = Some w \<and>
               \<not> outstanding (sockets s2) w \<and>
               map_option readyState (sockets s3 w) = Some CLOSED \<and>
               \<not> isConnected s3 \<and> wsRef s3 = None \<and>
               reconnectAttemptsRef s3 = reconnectAttemptsRef s + 1 \<and>
               reconnectTimeoutRef s3 = Some (nextTimer s) \<and>
               timers s3 (nextTimer s) = Some (reconnect_delay (reconnectAttemptsRef s), RetryCb))) \<and>
         (wsRef s = Some w' \<and> map_option readyState (sockets s w') = Some CONNECTING \<longrightarrow>
            (case connectionTimeoutRef s of
               None \<Rightarrow> False
             | Some t' \<Rightarrow> timers s t' = Some (5000, ConnTimeoutCb w')))"
proof (intro conjI impI)
  assume "wsRef s = Some w' \<and> map_option readyState (sockets s w') = Some CONNECTING"
  moreover have "Armed s"
    unfolding assms by (rule Armed_reachable)
  ultimately show "case connectionTimeoutRef s of
               None \<Rightarrow> False
             | Some t' \<Rightarrow> timers s t' = Some (5000, ConnTimeoutCb w')"
    by (auto simp: Armed_def CONNECTION_TIMEOUT_def split: option.splits)
next
  assume "mountedRef s \<and> reconnectAttemptsRef s < MAX_RECONNECT_ATTEMPTS"
  then show "let s1 = connect False s in
               wsRef s1 = Some (nextSocket s) \<and>
               sockets s1 (nextSocket s) = Some \<lparr>readyState = CONNECTING, handlers = True\<rparr> \<and>
               timers s1 (nextTimer s) = Some (5000, ConnTimeoutCb (nextSocket s)) \<and>
               connectionTimeoutRef s1 = Some (nextTimer s)"
    using connect_new_socket(1-4) [of s] by (simp add: Let_def CONNECTION_TIMEOUT_def)
next
  assume a: "timers s t = Some (d, ConnTimeoutCb w) \<and> wsRef s = Some w \<and>
          map_option readyState (sockets s w) = Some CONNECTING"
  then obtain sk where sk: "sockets s w = Some sk" "readyState sk = CONNECTING"
    by auto
  have inv: "Inv s"
    unfolding assms by (rule Inv_reachable)
  have hs: "handlers sk"
    using inv a sk(1) current_socket_listening(1) by blast
  have r: "reconnectTimeoutRef s = None"
    using inv a by (simp add: Inv_def)
  define s2 where "s2 = step parse (TimerFires t b) s"
  have s2: "s2 = ws_close w (clearTimeout t s)"
    unfolding s2_def using timeout_fires_connecting [of s t d w sk parse b] a sk by blast
  have sock2: "sockets s2 w = Some (sk\<lparr>readyState := CLOSING\<rparr>)"
    using sk by (simp add: s2 ws_close_def clearTimeout_fields)
  have f2: "wsRef s2 = Some w" "reconnectTimeoutRef s2 = None"
    "reconnectAttemptsRef s2 = reconnectAttemptsRef s" "nextTimer s2 = nextTimer s"
    using a r by (simp_all add: s2 ws_close_fields clearTimeout_fields)
  define s2' where "s2' = set_readyState w CLOSED s2"
  have f2': "wsRef s2' = Some w" "reconnectTimeoutRef s2' = None"
    "reconnectAttemptsRef s2' = reconnectAttemptsRef s" "nextTimer s2' = nextTimer s"
    using f2 by (simp_all add: s2'_def set_readyState_fields)
  have sock2': "sockets s2' w = Some (sk\<lparr>readyState := CLOSED\<rparr>)"
    using sock2 by (simp add: s2'_def set_readyState_def)
  have s3: "step parse (SockClose w) s2 = onclose w s2'"
    using sock2 hs by (simp add: Let_def s2'_def)
  note oc = onclose_schedules [OF f2'(1,2)]
  show "let s2 = step parse (TimerFires t b) s; s3 = step parse (SockClose w) s2 in
               map_option readyState (sockets s2 w) = Some CLOSING \<and> wsRef s2 = Some w \<and>
               \<not> outstanding (sockets s2) w \<and>
               map_option readyState (sockets s3 w) = Some CLOSED \<and>
               \<not> isConnected s3 \<and> wsRef s3 = None \<and>
               reconnectAttemptsRef s3 = reconnectAttemptsRef s + 1 \<and>
               reconnectTimeoutRef s3 = Some (nextTimer s) \<and>
               timers s3 (nextTimer s) = Some (reconnect_delay (reconnectAttemptsRef s), RetryCb)"
    unfolding Let_def s2_def [symmetric] s3
    using sock2 f2 oc(1,2,4,5,7,9) sock2' f2'
    by (simp add: outstanding_def)
qed

theorem connection_attempt_times_out_witness:
  "(let s = run parse_literals [Setup] init; s1 = connect False s in
      mountedRef s \<and> reconnectAttemptsRef s < MAX_RECONNECT_ATTEMPTS \<and>
      timers s1 (nextTimer s) = Some (5000, ConnTimeoutCb (nextSocket s))) \<and>
   (let s = run parse_literals [Setup, TimerFires 1 False] init;
        s3 = step parse_literals (SockClose 0) (step parse_literals (TimerFires 2 False) s) in
      timers s 2 = Some (5000, ConnTimeoutCb 0) \<and> wsRef s = Some 0 \<and>
      map_option readyState (sockets s 0) = Some CONNECTING \<and>
      wsRef s3 = None \<and> reconnectAttemptsRef s3 = 1 \<and>
      timers s3 3 = Some (1000, RetryCb))"
proof -
  have h1: "mountedRef (run parse_literals [Setup] init) \<and>
        reconnectAttemptsRef (run parse_literals [Setup] init) < MAX_RECONNECT_ATTEMPTS"
    by (simp add: eval_defs)
  have h2: "timers connecting0 2 = Some (5000, ConnTimeoutCb 0) \<and> wsRef connecting0 = Some 0 \<and>
      map_option readyState (sockets connecting0 0) = Some CONNECTING"
    by (simp add: connecting0_def)
  have v: "reconnectAttemptsRef connecting0 = 0" "nextTimer connecting0 = 3"
    "reconnect_delay 0 = 1000"
    by (simp_all add: connecting0_def reconnect_delay_def INITIAL_RECONNECT_DELAY_def)
  note a = connection_attempt_times_out [OF refl, of parse_literals "[Setup]", THEN conjunct1,
      rule_format, OF h1]
  note b = connection_attempt_times_out [OF run_connecting0 [symmetric], of 2 5000 0 parse_literals False,
      THEN conjunct2, THEN conjunct1, rule_format, OF h2]
  show ?thesis
    using a b h1 h2 unfolding Let_def run_connecting0 v
    by simp
qed

section \<open>One transport, one retry\<close>

lemma connect_tears_down:
  assumes "Inv s" "mountedRef s"
  shows "w < nextSocket s \<Longrightarrow> \<not> outstanding (sockets (connect throws s)) w"
    and "w < nextSocket s \<Longrightarrow> \<not> listening (sockets (connect throws s)) w"
    and "t < nextTimer s \<Longrightarrow> \<not> pending_retry (timers (connect throws s)) t"
    and "t < nextTimer s \<Longrightarrow> \<not> pending_conn_timeout (timers (connect throws s)) t"
proof -
  have q: "quiet (resetConnection s)"
    using assms(1) by (rule quiet_resetConnection)
  show "w < nextSocket s \<Longrightarrow> \<not> outstanding (sockets (connect throws s)) w"
    using q assms(2) unfolding connect_def Let_def
    by (simp add: quiet_def setTimeout_fields ws_close_sockets resetConnection_fields
        set_handlers_sockets obs_simps)
  show "w < nextSocket s \<Longrightarrow> \<not> listening (sockets (connect throws s)) w"
    using q assms(2) unfolding connect_def Let_def
    by (simp add: quiet_def setTimeout_fields ws_close_sockets resetConnection_fields
        set_handlers_sockets obs_simps)
  show "t < nextTimer s \<Longrightarrow> \<not> pending_retry (timers (connect throws s)) t"
    using q assms(2) unfolding connect_def Let_def
    by (simp add: quiet_def setTimeout_fields ws_close_fields resetConnection_fields
        set_handlers_fields obs_simps)
  show "t < nextTimer s \<Longrightarrow> \<not> pending_conn_timeout (timers (connect throws s)) t"
    using q assms(2) unfolding connect_def Let_def
    by (simp add: quiet_def setTimeout_fields ws_close_fields resetConnection_fields
        set_handlers_fields obs_simps)
qed

lemma connect_constructs_only_mounted:
  "nextSocket (connect throws s) \<noteq> nextSocket s \<Longrightarrow> mountedRef s"
  by (cases "mountedRef s") (simp_all add: connect_def)

text \<open>
  Claim C3. In every reachable state at most one socket is outstanding (connecting or
  open), and it is the one \<^verbatim>\<open>wsRef\<close> holds; at most one retry timer is pending, and it is
  the one \<^verbatim>\<open>reconnectTimeoutRef\<close> holds. A call of \<^verbatim>\<open>connect\<close> that constructs a socket
  has torn down every socket that existed before (none of them is outstanding or has its
  handlers attached afterwards) and cleared every retry and connection timeout that was
  pending before.
\<close>

theorem one_transport_one_retry:
  assumes "s = run parse es init"
  shows "(\<forall>w w'. outstanding (sockets s) w \<and> outstanding (sockets s) w' \<longrightarrow> w = w') \<and>
         (\<forall>w. outstanding (sockets s) w \<longrightarrow> wsRef s = Some w) \<and>
         (\<forall>t t'. pending_retry (timers s) t \<and> pending_retry (timers s) t' \<longrightarrow> t = t') \<and>
         (\<forall>t. pending_retry (timers s) t \<longrightarrow> reconnectTimeoutRef s = Some t) \<and>
         (\<forall>throws. nextSocket (connect throws s) \<noteq> nextSocket s \<longrightarrow>
            (\<forall>w. w \<in> dom (sockets s) \<longrightarrow>
                 \<not> outstanding (sockets (connect throws s)) w \<and>
                 \<not> listening (sockets (connect throws s)) w) \<and>
            (\<forall>t. t \<in> dom (timers s) \<longrightarrow>
                 \<not> pending_retry (timers (connect throws s)) t \<and>
                 \<not> pending_conn_timeout (timers (connect throws s)) t))"
proof -
  have inv: "Inv s"
    unfolding assms by (rule Inv_reachable)
  have fr: "Fresh s"
    unfolding assms by (rule Fresh_reachable)
  have a: "\<forall>w. outstanding (sockets s) w \<longrightarrow> wsRef s = Some w"
    and b: "\<forall>t. pending_retry (timers s) t \<longrightarrow> reconnectTimeoutRef s = Some t"
    using inv by (simp_all add: Inv_def)
  have a2: "\<forall>w w'. outstanding (sockets s) w \<and> outstanding (sockets s) w' \<longrightarrow> w = w'"
    using a by (metis option.inject)
  have b2: "\<forall>t t'. pending_retry (timers s) t \<and> pending_retry (timers s) t' \<longrightarrow> t = t'"
    using b by (metis option.inject)
  have c: "\<forall>throws. nextSocket (connect throws s) \<noteq> nextSocket s \<longrightarrow>
            (\<forall>w. w \<in> dom (sockets s) \<longrightarrow>
                 \<not> outstanding (sockets (connect throws s)) w \<and>
                 \<not> listening (sockets (connect throws s)) w) \<and>
            (\<forall>t. t \<in> dom (timers s) \<longrightarrow>
                 \<not> pending_retry (timers (connect throws s)) t \<and>
                 \<not> pending_conn_timeout (timers (connect throws s)) t)"
  proof (intro allI impI conjI)
    fix throws w
    assume "nextSocket (connect throws s) \<noteq> nextSocket s"
    then have m: "mountedRef s" by (rule connect_constructs_only_mounted)
    assume "w \<in> dom (sockets s)"
    with fr have "w < nextSocket s" by (auto simp: Fresh_def)
    then show "\<not> outstanding (sockets (connect throws s)) w"
      and "\<not> listening (sockets (connect throws s)) w"
      using connect_tears_down(1,2) [OF inv m] by blast+
  next
    fix throws t
    assume "nextSocket (connect throws s) \<noteq> nextSocket s"
    then have m: "mountedRef s" by (rule connect_constructs_only_mounted)
    assume "t \<in> dom (timers s)"
    with fr have "t < nextTimer s" by (auto simp: Fresh_def)
    then show "\<not> pending_retry (timers (connect throws s)) t"
      and "\<not> pending_conn_timeout (timers (connect throws s)) t"
      using connect_tears_down(3,4) [OF inv m] by blast+
  qed
  from a2 a b2 b c show ?thesis by blast
qed

theorem one_transport_one_retry_witness:
  "(let s = run parse_literals [Setup, TimerFires 1 False] init; s' = connect False s in
      outstanding (sockets s) 0 \<and> wsRef s = Some 0 \<and>
      nextSocket s' \<noteq> nextSocket s \<and>
      0 \<in> dom (sockets s) \<and> \<not> outstanding (sockets s') 0 \<and> \<not> listening (sockets s') 0 \<and>
      2 \<in> dom (timers s) \<and> \<not> pending_conn_timeout (timers s') 2 \<and>
      outstanding (sockets s') 1 \<and> wsRef s' = Some 1)"
  using one_transport_one_retry [OF run_connecting0 [symmetric]]
  unfolding run_connecting0 Let_def
  by (simp add: eval_defs connecting0_def outstanding_def listening_def
      pending_conn_timeout_def del: One_nat_def)

section \<open>Silent states stay silent until the effect runs again\<close>

lemma resetConnection_noop:
  assumes "wsRef q = None" "reconnectTimeoutRef q = None" "connectionTimeoutRef q = None"
  shows "resetConnection q = q"
  using assms by (simp add: resetConnection_def clearTimeouts_def Let_def)

lemma effect_cleanup_noop:
  assumes "\<not> mountedRef q" "wsRef q = None" "reconnectTimeoutRef q = None"
    "connectionTimeoutRef q = None" "\<forall>t. initTimeout q = Some t \<longrightarrow> timers q t = None"
  shows "effect_cleanup q = q"
proof -
  have m: "q\<lparr>mountedRef := False\<rparr> = q"
    using assms(1) by (cases q) simp
  have "(case initTimeout q of Some t \<Rightarrow> clearTimeout t q | None \<Rightarrow> q) = q"
    using assms(5) by (cases q) (auto simp: clearTimeout_def split: option.splits)
  then show ?thesis
    using assms(2-4) by (simp add: effect_cleanup_def Let_def m resetConnection_noop)
qed

lemma effect_cleanup_fields:
  "\<not> mountedRef (effect_cleanup s)"
  "wsRef (effect_cleanup s) = None"
  "reconnectTimeoutRef (effect_cleanup s) = None"
  "connectionTimeoutRef (effect_cleanup s) = None"
  "initTimeout (effect_cleanup s) = initTimeout s"
  "reconnectAttemptsRef (effect_cleanup s) = reconnectAttemptsRef s"
  "nextSocket (effect_cleanup s) = nextSocket s"
  "nextTimer (effect_cleanup s) = nextTimer s"
  "initTimeout s = Some t \<Longrightarrow> timers (effect_cleanup s) t = None"
  by (simp_all add: effect_cleanup_def Let_def resetConnection_fields clearTimeout_fields
      clearTimeouts_timers split: option.splits)

lemma effect_cleanup_idem: "effect_cleanup (effect_cleanup s) = effect_cleanup s"
  by (rule effect_cleanup_noop) (simp_all add: effect_cleanup_fields)

lemma quiet_timer_is_init:
  assumes "quiet s" "timers s t = Some (d, cb)"
  shows "cb = InitCb"
proof -
  from assms(1) have "\<not> pending_retry (timers s) t" "\<not> pending_conn_timeout (timers s) t"
    by (simp_all add: quiet_def)
  with assms(2) show ?thesis
    by (cases cb) (simp_all add: pending_retry_def pending_conn_timeout_def)
qed

lemma quiet_clearTimeout: "quiet s \<Longrightarrow> quiet (clearTimeout t s)"
  by (simp add: quiet_def clearTimeout_fields obs_simps)

lemma silent_connect:
  assumes "silent s"
  shows "silent (connect throws s)"
    and "nextSocket (connect throws s) = nextSocket s"
    and "nextTimer (connect throws s) = nextTimer s"
    and "reconnectAttemptsRef (connect throws s) = reconnectAttemptsRef s"
    and "mountedRef (connect throws s) = mountedRef s"
proof -
  have q: "quiet s" and g: "\<not> mountedRef s \<or> MAX_RECONNECT_ATTEMPTS \<le> reconnectAttemptsRef s"
    using assms by (simp_all add: silent_def)
  have r: "resetConnection s = s"
    using q by (simp add: quiet_def resetConnection_noop)
  have "connect throws s = s"
    using g by (auto simp: connect_def Let_def r)
  with assms show "silent (connect throws s)"
    and "nextSocket (connect throws s) = nextSocket s"
    and "nextTimer (connect throws s) = nextTimer s"
    and "reconnectAttemptsRef (connect throws s) = reconnectAttemptsRef s"
    and "mountedRef (connect throws s) = mountedRef s"
    by simp_all
qed

lemma silent_step:
  assumes "silent s" "e \<noteq> Setup"
  shows "silent (step parse e s) \<and>
         nextSocket (step parse e s) = nextSocket s \<and>
         nextTimer (step parse e s) = nextTimer s \<and>
         reconnectAttemptsRef (step parse e s) = reconnectAttemptsRef s \<and>
         (\<not> mountedRef s \<longrightarrow> \<not> mountedRef (step parse e s))"
proof -
  have q: "quiet s"
    using assms(1) by (simp add: silent_def)
  then have no: "\<not> outstanding (sockets s) w" "\<not> listening (sockets s) w" for w
    by (simp_all add: quiet_def)
  show ?thesis
  proof (cases e)
    case Setup
    with assms(2) show ?thesis by simp
  next
    case Cleanup
    have "quiet (effect_cleanup s)"
      using q by (simp add: quiet_Inv quiet_effect_cleanup)
    then show ?thesis
      using Cleanup by (simp add: silent_def effect_cleanup_fields)
  next
    case (TimerFires t throws)
    show ?thesis
    proof (cases "timers s t")
      case None
      with TimerFires assms(1) show ?thesis by simp
    next
      case (Some dc)
      obtain d cb where dc: "dc = (d, cb)" by (cases dc)
      with Some q have cb: "cb = InitCb"
        using quiet_timer_is_init by blast
      have s1: "silent (clearTimeout t s)"
        using assms(1) by (simp add: silent_def quiet_clearTimeout clearTimeout_fields)
      show ?thesis
        using TimerFires Some dc cb s1 silent_connect [OF s1, of throws]
        by (simp add: clearTimeout_fields)
    qed
  next
    case (SockOpen w)
    then show ?thesis
      using assms(1) no(1) [of w] by (auto simp: outstanding_def split: option.splits)
  next
    case (SockMessage w d)
    then show ?thesis
      using assms(1) no(1) [of w] by (auto simp: outstanding_def split: option.splits)
  next
    case (SockError w)
    then show ?thesis
      using assms(1) no(2) [of w] by (auto simp: listening_def split: option.splits)
  next
    case (SockClose w)
    have "silent (set_readyState w CLOSED s)"
      using assms(1)
      by (simp add: silent_def quiet_def set_readyState_fields set_readyState_sockets)
    then show ?thesis
      using SockClose assms(1) no(2) [of w]
      by (auto simp: listening_def Let_def set_readyState_fields split: option.splits)
  qed
qed

lemma silent_run:
  assumes "silent s" "Setup \<notin> set es"
  shows "silent (run parse es s) \<and>
         nextSocket (run parse es s) = nextSocket s \<and>
         nextTimer (run parse es s) = nextTimer s \<and>
         reconnectAttemptsRef (run parse es s) = reconnectAttemptsRef s \<and>
         (\<not> mountedRef s \<longrightarrow> \<not> mountedRef (run parse es s))"
  using assms
proof (induction es arbitrary: s)
  case Nil
  then show ?case by simp
next
  case (Cons e es)
  from Cons.prems have e: "e \<noteq> Setup" and es: "Setup \<notin> set es"
    by auto
  note st = silent_step [OF Cons.prems(1) e, of parse]
  from st have "silent (step parse e s)" by blast
  from Cons.IH [OF this es] st show ?case
    by simp
qed

text \<open>
  Claim C4. The cleanup of the effect, run in any reachable state, leaves the hook
  unmounted with no current socket, no retry and no connection timeout pending, the
  effect's own initial timer cancelled, and no socket outstanding or with its handlers
  attached. Running the cleanup again changes nothing. Whatever events follow, short of
  the effect running again, the hook stays unmounted without a current socket, no retry
  is pending, and no timer is scheduled and no socket constructed (the next handles stay
  the same).
\<close>

theorem teardown_is_final:
  assumes "s = run parse es init"
  shows "let s' = step parse Cleanup s in
           \<not> mountedRef s' \<and> wsRef s' = None \<and>
           reconnectTimeoutRef s' = None \<and> connectionTimeoutRef s' = None \<and>
           (\<forall>t. \<not> pending_retry (timers s') t \<and> \<not> pending_conn_timeout (timers s') t) \<and>
           (\<forall>t. initTimeout s = Some t \<longrightarrow> timers s' t = None) \<and>
           (\<forall>w. \<not> outstanding (sockets s') w \<and> \<not> listening (sockets s') w) \<and>
           step parse Cleanup s' = s' \<and>
           (\<forall>es'. Setup \<notin> set es' \<longrightarrow>
              (let s'' = run parse es' s' in
                 \<not> mountedRef s'' \<and> wsRef s'' = None \<and>
                 (\<forall>t. \<not> pending_retry (timers s'') t) \<and>
                 nextTimer s'' = nextTimer s' \<and> nextSocket s'' = nextSocket s'))"
proof -
  have inv: "Inv s"
    unfolding assms by (rule Inv_reachable)
  define s' where "s' = effect_cleanup s"
  have q: "quiet s'"
    unfolding s'_def using inv by (rule quiet_effect_cleanup)
  have m: "\<not> mountedRef s'"
    by (simp add: s'_def effect_cleanup_fields)
  have sil: "silent s'"
    using q m by (simp add: silent_def)
  have idem: "step parse Cleanup s' = s'"
    by (simp add: s'_def effect_cleanup_idem)
  have init: "\<forall>t. initTimeout s = Some t \<longrightarrow> timers s' t = None"
    by (simp add: s'_def effect_cleanup_fields)
  have after: "\<forall>es'. Setup \<notin> set es' \<longrightarrow>
              (let s'' = run parse es' s' in
                 \<not> mountedRef s'' \<and> wsRef s'' = None \<and>
                 (\<forall>t. \<not> pending_retry (timers s'') t) \<and>
                 nextTimer s'' = nextTimer s' \<and> nextSocket s'' = nextSocket s')"
  proof (intro allI impI)
    fix es'
    assume "Setup \<notin> set es'"
    from silent_run [OF sil this, of parse] m
    show "let s'' = run parse es' s' in
                 \<not> mountedRef s'' \<and> wsRef s'' = None \<and>
                 (\<forall>t. \<not> pending_retry (timers s'') t) \<and>
                 nextTimer s'' = nextTimer s' \<and> nextSocket s'' = nextSocket s'"
      by (simp add: Let_def silent_def quiet_def)
  qed
  have "step parse Cleanup s = s'"
    by (simp add: s'_def)
  with q m idem init after show ?thesis
    by (simp add: Let_def quiet_def)
qed

theorem teardown_is_final_witness:
  "(let s = run parse_literals [Setup, TimerFires 1 False, SockOpen 0] init;
        s' = step parse_literals Cleanup s;
        s'' = run parse_literals [SockClose 0, SockError 0, TimerFires 2 False, Cleanup] s' in
      outstanding (sockets s) 0 \<and> \<not> outstanding (sockets s') 0 \<and>
      \<not> listening (sockets s') 0 \<and>
      step parse_literals Cleanup s' = s' \<and>
      \<not> mountedRef s'' \<and> wsRef s'' = None \<and> \<not> pending_retry (timers s'') 3 \<and>
      nextTimer s'' = nextTimer s' \<and> nextSocket s'' = nextSocket s')"
proof -
  let ?s = "run parse_literals [Setup, TimerFires 1 False, SockOpen 0] init"
  let ?es' = "[SockClose 0, SockError 0, TimerFires 2 False, Cleanup]"
  have n: "Setup \<notin> set ?es'"
    by simp
  have p: "outstanding (sockets ?s) 0"
    unfolding run_connected0 by (simp add: connected0_def outstanding_def)
  note t = teardown_is_final [OF refl, of parse_literals "[Setup, TimerFires 1 False, SockOpen 0]"]
  from t have a: "\<not> outstanding (sockets (step parse_literals Cleanup ?s)) 0"
    and a': "\<not> listening (sockets (step parse_literals Cleanup ?s)) 0"
    and b: "step parse_literals Cleanup (step parse_literals Cleanup ?s)
             = step parse_literals Cleanup ?s"
    unfolding Let_def by blast+
  from t n have c: "let s'' = run parse_literals ?es' (step parse_literals Cleanup ?s) in
                 \<not> mountedRef s'' \<and> wsRef s'' = None \<and>
                 (\<forall>t. \<not> pending_retry (timers s'') t) \<and>
                 nextTimer s'' = nextTimer (step parse_literals Cleanup ?s) \<and>
                 nextSocket s'' = nextSocket (step parse_literals Cleanup ?s)"
    unfolding Let_def by blast
  from p a a' b c show ?thesis
    unfolding Let_def by blast
qed

section \<open>Reconnection\<close>

text \<open>
  The backoff delays, the retry that a close event of the current socket schedules, and
  what the retry does when it fires below the maximum of attempts. Then the \<^verbatim>\<open>catch\<close>
  branch of \<^verbatim>\<open>connect\<close>, taken when the constructor throws.
\<close>

lemma reconnect_delays:
  "map reconnect_delay [0, 1, 2, 3, 4, 5, 6] = [1000, 2000, 4000, 8000, 10000, 10000, 10000]"
  by (simp add: reconnect_delay_def INITIAL_RECONNECT_DELAY_def)

lemma reconnect_delay_capped: "4 \<le> n \<Longrightarrow> reconnect_delay n = 10000"
proof -
  assume "4 \<le> n"
  then have "(2::nat) ^ 4 \<le> 2 ^ n"
    by (intro power_increasing) simp_all
  then have "(16::nat) \<le> 2 ^ n" by simp
  then show ?thesis
    by (simp add: reconnect_delay_def INITIAL_RECONNECT_DELAY_def min_def)
qed

lemma close_schedules_one_retry:
  assumes "s = run parse es init" "wsRef s = Some w"
  shows "let s' = step parse (SockClose w) s in
           \<not> isConnected s' \<and> wsRef s' = None \<and>
           reconnectAttemptsRef s' = reconnectAttemptsRef s + 1 \<and>
           timers s' (nextTimer s) = Some (reconnect_delay (reconnectAttemptsRef s), RetryCb) \<and>
           (\<forall>t. pending_retry (timers s') t \<longleftrightarrow> t = nextTimer s) \<and>
           nextTimer s' = nextTimer s + 1"
proof -
  have inv: "Inv s"
    unfolding assms(1) by (rule Inv_reachable)
  have fr: "Fresh s"
    unfolding assms(1) by (rule Fresh_reachable)
  from inv assms(2) have l: "listening (sockets s) w" and r: "reconnectTimeoutRef s = None"
    by (simp_all add: Inv_def)
  from l obtain sk where sk: "sockets s w = Some sk" "handlers sk" "readyState sk \<noteq> CLOSED"
    by (auto simp: listening_def split: option.splits)
  define s0 where "s0 = set_readyState w CLOSED s"
  have f0: "wsRef s0 = Some w" "reconnectTimeoutRef s0 = None" "nextTimer s0 = nextTimer s"
    "reconnectAttemptsRef s0 = reconnectAttemptsRef s" "timers s0 = timers s"
    "connectionTimeoutRef s0 = connectionTimeoutRef s"
    using assms(2) r by (simp_all add: s0_def set_readyState_fields)
  have st: "step parse (SockClose w) s = onclose w s0"
    using sk by (simp add: Let_def s0_def)
  note oc = onclose_schedules [OF f0(1,2)]
  have nopending: "\<not> pending_retry (timers s) t" for t
    using inv r by (auto simp: Inv_def)
  have "pending_retry (timers (onclose w s0)) t \<longleftrightarrow> t = nextTimer s" for t
  proof (cases "t = nextTimer s")
    case True
    then show ?thesis
      using oc(7) by (simp add: pending_retry_def f0)
  next
    case False
    then show ?thesis
      using oc(8) [of t] nopending [of t] by (simp add: pending_retry_def f0)
  qed
  then show ?thesis
    unfolding Let_def st using oc(1,2,4,6,7) by (simp add: f0)
qed

lemma retry_fires_reconnects:
  assumes "timers s t = Some (d, RetryCb)" "mountedRef s"
    "reconnectAttemptsRef s < MAX_RECONNECT_ATTEMPTS"
  shows "wsRef (step parse (TimerFires t False) s) = Some (nextSocket s)"
    and "sockets (step parse (TimerFires t False) s) (nextSocket s)
           = Some \<lparr>readyState = CONNECTING, handlers = True\<rparr>"
proof -
  define s1 where "s1 = (clearTimeout t s)\<lparr>reconnectTimeoutRef := None\<rparr>"
  have f: "mountedRef s1" "reconnectAttemptsRef s1 < MAX_RECONNECT_ATTEMPTS"
    "nextSocket s1 = nextSocket s"
    using assms(2,3) by (simp_all add: s1_def clearTimeout_fields)
  have st: "step parse (TimerFires t False) s = connect False s1"
    using assms by (simp add: Let_def s1_def clearTimeout_fields)
  show "wsRef (step parse (TimerFires t False) s) = Some (nextSocket s)"
    and "sockets (step parse (TimerFires t False) s) (nextSocket s)
           = Some \<lparr>readyState = CONNECTING, handlers = True\<rparr>"
    unfolding st using connect_new_socket(1,2) [OF f(1,2)] by (simp_all add: f(3))
qed

lemma connect_throws_schedules:
  assumes "mountedRef s" "reconnectAttemptsRef s < MAX_RECONNECT_ATTEMPTS"
  shows "timers (connect True s) (nextTimer s) = Some (3000, CatchRetryCb)"
    and "reconnectTimeoutRef (connect True s) = Some (nextTimer s)"
    and "reconnectAttemptsRef (connect True s) = reconnectAttemptsRef s"
    and "wsRef (connect True s) = None"
    and "nextSocket (connect True s) = nextSocket s"
  using assms
  by (simp_all add: connect_def Let_def resetConnection_fields setTimeout_fields)

text \<open>
  Claim C1 asks for the backoff on every path, the one where the WebSocket constructor
  throws included. On that path the retry is scheduled after a fixed 3000 ms and the
  attempt is not counted: after the first attempt has thrown, the counter is still 0 and
  the retry waits 3000 ms, where the backoff delay for 0 attempts is 1000 ms.
\<close>

theorem constructor_throw_fixed_delay:
  "(let s = run parse [Setup, TimerFires 1 True] init in
      wsRef s = None \<and> reconnectAttemptsRef s = 0 \<and>
      reconnectTimeoutRef s = Some 2 \<and> timers s 2 = Some (3000, CatchRetryCb) \<and>
      reconnect_delay 0 = 1000)"
  by (simp add: eval_defs del: One_nat_def)

text \<open>
  Claim C2 asks that five consecutive failed attempts end in the state that gives up.
  When the constructor throws, six attempts in a row fail and the hook has still a retry
  pending, the counter at 0 and no socket ever constructed.
\<close>

theorem constructor_throws_no_giving_up:
  "(let s = run parse [Setup, TimerFires 1 True, TimerFires 2 True, TimerFires 3 True,
                       TimerFires 4 True, TimerFires 5 True, TimerFires 6 True] init in
      mountedRef s \<and> reconnectAttemptsRef s = 0 \<and> nextSocket s = 0 \<and>
      reconnectTimeoutRef s = Some 7 \<and> timers s 7 = Some (3000, CatchRetryCb))"
  by (simp add: eval_defs del: One_nat_def)

text \<open>When the attempts fail by close events, the fifth retry timer gives up.\<close>

lemma five_closes_give_up:
  "run parse [Setup, TimerFires 1 False, SockClose 0, TimerFires 3 False, SockClose 1,
              TimerFires 5 False, SockClose 2, TimerFires 7 False, SockClose 3,
              TimerFires 9 False, SockClose 4, TimerFires 11 False] init = gaveUp5"
  by (simp add: eval_defs gaveUp5_def del: One_nat_def)

text \<open>
  In general: when the current socket of a reachable state closes with four attempts
  counted, the retry is scheduled after 10000 ms, and when it fires the hook is silent
  with five attempts counted and no socket constructed. It stays so, scheduling nothing
  and constructing nothing, until the effect runs again, which resets the counter.
\<close>

lemma fifth_failure_gives_up:
  assumes "s = run parse es init" "wsRef s = Some w" "reconnectAttemptsRef s = 4"
  shows "let s1 = step parse (SockClose w) s; s2 = step parse (TimerFires (nextTimer s) b) s1 in
           timers s1 (nextTimer s) = Some (10000, RetryCb) \<and>
           silent s2 \<and> reconnectAttemptsRef s2 = 5 \<and>
           nextSocket s2 = nextSocket s \<and> nextTimer s2 = nextTimer s + 1 \<and>
           (\<forall>es'. Setup \<notin> set es' \<longrightarrow>
              (let s3 = run parse es' s2 in
                 silent s3 \<and> reconnectAttemptsRef s3 = 5 \<and>
                 nextSocket s3 = nextSocket s2 \<and> nextTimer s3 = nextTimer s2)) \<and>
           reconnectAttemptsRef (step parse Setup s2) = 0"
proof -
  define s1 where "s1 = step parse (SockClose w) s"
  define s2 where "s2 = step parse (TimerFires (nextTimer s) b) s1"
  have inv1: "Inv s1"
    unfolding s1_def assms(1) by (intro Inv_step Inv_reachable)
  note c = close_schedules_one_retry [OF assms(1,2), unfolded Let_def, folded s1_def]
  have t1: "timers s1 (nextTimer s) = Some (10000, RetryCb)"
    using c assms(3) by (simp add: reconnect_delay_capped)
  have a1: "reconnectAttemptsRef s1 = 5" "wsRef s1 = None" "nextTimer s1 = nextTimer s + 1"
    using c assms(3) by simp_all
  have st: "s2 = (clearTimeout (nextTimer s) s1)\<lparr>reconnectTimeoutRef := None\<rparr>"
    unfolding s2_def using t1 a1(1)
    by (simp add: Let_def clearTimeout_fields MAX_RECONNECT_ATTEMPTS_def)
  have k1: "connectionTimeoutRef s1 = None"
  proof -
    from inv1 assms(2) have "Inv s" "wsRef s = Some w"
      unfolding assms(1) by (simp_all add: Inv_reachable)
    then have l: "listening (sockets s) w" and r: "reconnectTimeoutRef s = None"
      by (simp_all add: Inv_def)
    from l obtain sk where sk: "sockets s w = Some sk" "handlers sk" "readyState sk \<noteq> CLOSED"
      by (auto simp: listening_def split: option.splits)
    have "s1 = onclose w (set_readyState w CLOSED s)"
      unfolding s1_def using sk by (simp add: Let_def)
    then show ?thesis
      using onclose_schedules(3) [of "set_readyState w CLOSED s" w] assms(2) r
      by (simp add: set_readyState_fields)
  qed
  have q2: "quiet s2"
    unfolding quiet_def
  proof (intro conjI allI)
    show "wsRef s2 = None" "reconnectTimeoutRef s2 = None" "connectionTimeoutRef s2 = None"
      using a1(2) k1 by (simp_all add: st clearTimeout_fields)
    show "\<not> outstanding (sockets s2) w'" for w'
      using inv1 a1(2) by (auto simp: st clearTimeout_fields Inv_def)
    show "\<not> listening (sockets s2) w'" for w'
      using inv1 a1(2) by (auto simp: st clearTimeout_fields Inv_def)
    show "\<not> pending_retry (timers s2) t" for t
      using c by (simp add: st clearTimeout_fields obs_simps)
    show "\<not> pending_conn_timeout (timers s2) t" for t
      using inv1 k1 by (auto simp: st clearTimeout_fields obs_simps Inv_def)
  qed
  have f2: "reconnectAttemptsRef s2 = 5" "nextTimer s2 = nextTimer s + 1"
    using a1 by (simp_all add: st clearTimeout_fields)
  have n2: "nextSocket s2 = nextSocket s"
  proof -
    have invs: "Inv s" unfolding assms(1) by (rule Inv_reachable)
    then have l: "listening (sockets s) w"
      using assms(2) by (simp add: Inv_def)
    from l obtain sk where sk: "sockets s w = Some sk" "handlers sk" "readyState sk \<noteq> CLOSED"
      by (auto simp: listening_def split: option.splits)
    have "s1 = onclose w (set_readyState w CLOSED s)"
      unfolding s1_def using sk by (simp add: Let_def)
    moreover have "reconnectTimeoutRef s = None"
      using invs assms(2) by (simp add: Inv_def)
    ultimately have "nextSocket s1 = nextSocket s"
      using onclose_schedules(10) [of "set_readyState w CLOSED s" w] assms(2)
      by (simp add: set_readyState_fields)
    then show ?thesis
      by (simp add: st clearTimeout_fields)
  qed
  have sil: "silent s2"
    using q2 f2(1) by (simp add: silent_def MAX_RECONNECT_ATTEMPTS_def)
  have stay: "\<forall>es'. Setup \<notin> set es' \<longrightarrow>
              (let s3 = run parse es' s2 in
                 silent s3 \<and> reconnectAttemptsRef s3 = 5 \<and>
                 nextSocket s3 = nextSocket s2 \<and> nextTimer s3 = nextTimer s2)"
  proof (intro allI impI)
    fix es'
    assume "Setup \<notin> set es'"
    from silent_run [OF sil this, of parse] f2(1)
    show "let s3 = run parse es' s2 in
                 silent s3 \<and> reconnectAttemptsRef s3 = 5 \<and>
                 nextSocket s3 = nextSocket s2 \<and> nextTimer s3 = nextTimer s2"
      by (simp add: Let_def)
  qed
  have again: "reconnectAttemptsRef (step parse Setup s2) = 0"
    by (simp add: effect_setup_def Let_def setTimeout_fields)
  show ?thesis
    unfolding Let_def s1_def [symmetric] s2_def [symmetric]
    using t1 sil f2 n2 stay again by (simp add: Let_def)
qed

end
